theory Spec2Isabelle
  imports Main
begin

section \<open>The Codex app-server client: data\<close>

text \<open>
  The client of \<^verbatim>\<open>CodexAppServerClient\<close> speaks line-delimited JSON-RPC with a child
  process. The model below follows the TypeScript declarations of the source file: an
  optional field \<^verbatim>\<open>f?: T\<close> is a \<open>T option\<close>, a \<^verbatim>\<open>Map\<close> is a partial function, a
  thrown \<^verbatim>\<open>Error\<close> is a value, and every mutation of \<^verbatim>\<open>this\<close> is an update of the
  \<open>client\<close> record that is passed through.

  Values of type \<^verbatim>\<open>unknown\<close> (results, outbound parameters) are JSON values. A JSON number
  is modelled by an integer, and a string by a list of \<open>char\<close>, each standing for one code
  unit below 256.
\<close>

datatype json =
    JNull
  | JBool bool
  | JNum int
  | JStr string
  | JArr "json list"
  | JObj "(string \<times> json) list"

text \<open>\<^verbatim>\<open>type JsonRpcId = number | string\<close>\<close>

datatype JsonRpcId = IdNum int | IdStr string

text \<open>The \<^verbatim>\<open>error\<close> member of a response: \<^verbatim>\<open>{ code; message; data? }\<close>. The source reads
  the message through \<^verbatim>\<open>?.\<close> and \<^verbatim>\<open>??\<close>, so it may be absent.\<close>

record rpc_error =
  err_code :: int
  err_message :: "string option"
  err_data :: "json option"

text \<open>
  A decoded message. The three TypeScript shapes \<^verbatim>\<open>JsonRpcRequest\<close>,
  \<^verbatim>\<open>JsonRpcNotification\<close> and \<^verbatim>\<open>JsonRpcResponse\<close> are told apart by which members are
  present (\<^verbatim>\<open>"id" in message\<close>), so a message is the record of its optional members.
  The constant member \<^verbatim>\<open>jsonrpc: "2.0"\<close> is never read and is left out. The type
  parameter is the type of \<^verbatim>\<open>params\<close>.
\<close>

record 'p JsonRpcMessage =
  msg_id :: "JsonRpcId option"
  msg_method :: "string option"
  msg_params :: "'p option"
  msg_result :: "json option"
  msg_error :: "rpc_error option"

text \<open>\<^verbatim>\<open>CodexTurnResult\<close>\<close>

datatype turn_status = Completed | Failed | Interrupted

record CodexTurnResult =
  status :: turn_status
  outputText :: "string option"
  error :: "string option"

record CodexAppServerOptions =
  command :: string
  args :: "string list"
  cwd :: "string option"
  autoApprove :: bool

text \<open>
  A JavaScript \<^verbatim>\<open>Error\<close> with its message, and the two ways a promise is settled. A
  promise is named by a number; the \<^verbatim>\<open>resolve\<close> and \<^verbatim>\<open>reject\<close> closures stored in a
  table entry or a tracker are that number.
\<close>

datatype Error = Error string

datatype 'a outcome = Resolved 'a | Rejected Error

text \<open>
  \<^verbatim>\<open>TurnTracker\<close>. \<open>completion\<close> stands for the pair \<^verbatim>\<open>resolve\<close>, \<^verbatim>\<open>reject\<close> of the
  promise made by \<^verbatim>\<open>trackTurn\<close>, and \<open>timeout\<close> for the optional timer handle.
\<close>

record TurnTracker =
  threadId :: string
  turnId :: string
  lastAgentText :: string
  lastNonEmptyText :: string
  itemTexts :: "string \<rightharpoonup> string"
  completion :: nat
  timeout :: "nat option"

text \<open>
  The parameters of an inbound notification, as \<^verbatim>\<open>handleNotification\<close> casts them. The
  three casts read the members below; a member that a cast does not name is not read.
\<close>

record item_payload =
  item_type :: "string option"
  item_id :: "string option"
  item_text :: "string option"

record turn_error_payload =
  terr_message :: "string option"

record turn_payload =
  turn_id :: "string option"
  turn_status :: "string option"
  turn_error :: "turn_error_payload option"

record payload =
  p_threadId :: "string option"
  p_turnId :: "string option"
  p_itemId :: "string option"
  p_delta :: "string option"
  p_item :: "item_payload option"
  p_turn :: "turn_payload option"

text \<open>The result of \<^verbatim>\<open>turn/start\<close> as \<^verbatim>\<open>runTurn\<close> casts it:
  \<^verbatim>\<open>{ turn?: { id?: string } } | undefined\<close>.\<close>

record turn_ref =
  ref_id :: "string option"

record turn_start_response =
  resp_turn :: "turn_ref option"

text \<open>
  The state of one \<^verbatim>\<open>CodexAppServerClient\<close>, with the part of its environment that its
  methods act on:
  \<^item> \<open>child_stdin\<close>: \<^verbatim>\<open>this.child\<close> is set and has an input stream (the test of
    \<^verbatim>\<open>writeMessage\<close>);
  \<^item> \<open>nextId\<close>, \<open>pending\<close>, \<open>turns\<close>: the fields of the class. The counter is a JavaScript
    number, exact below \<open>2^53\<close>; it is modelled by a natural number;
  \<^item> \<open>stdin_lines\<close>: the messages written to the child, oldest first;
  \<^item> \<open>promises\<close>: how many promises \<^verbatim>\<open>sendRequest\<close> and \<^verbatim>\<open>trackTurn\<close> have made;
  \<^item> \<open>request_settled\<close>, \<open>turn_settled\<close>: every call of a \<^verbatim>\<open>resolve\<close> or \<^verbatim>\<open>reject\<close>
    closure, oldest first. A promise keeps the first settlement; later calls do nothing;
  \<^item> \<open>timers\<close>: the armed timers. A timer is named by the promise whose \<^verbatim>\<open>reject\<close> its
    callback holds, and maps to the \<^verbatim>\<open>turnId\<close> the callback holds.

  The fields \<^verbatim>\<open>reader\<close>, \<^verbatim>\<open>started\<close> and \<^verbatim>\<open>startPromise\<close> are read only by \<^verbatim>\<open>start\<close> and
  \<^verbatim>\<open>stop\<close> and are left out.
\<close>

record client =
  opts :: CodexAppServerOptions
  child_stdin :: bool
  nextId :: nat
  pending :: "string \<rightharpoonup> nat"
  turns :: "string \<rightharpoonup> TurnTracker"
  stdin_lines :: "json JsonRpcMessage list"
  promises :: nat
  request_settled :: "(nat \<times> json option outcome) list"
  turn_settled :: "(nat \<times> CodexTurnResult outcome) list"
  timers :: "nat \<rightharpoonup> string"

text \<open>What the caller awaiting promise \<open>p\<close> has received: the first settlement of \<open>p\<close>.\<close>

definition awaited :: "(nat \<times> 'a) list \<Rightarrow> nat \<Rightarrow> 'a option" where
  "awaited calls p = map_of calls p"

text \<open>How often the closures of promise \<open>p\<close> were called.\<close>

definition settlements :: "(nat \<times> 'a) list \<Rightarrow> nat \<Rightarrow> nat" where
  "settlements calls p = length (filter (\<lambda>c. fst c = p) calls)"

text \<open>A new client: the field initialisers of the class.\<close>

definition initial :: "CodexAppServerOptions \<Rightarrow> client" where
  "initial os =
     \<lparr> opts = os, child_stdin = False, nextId = 1, pending = Map.empty, turns = Map.empty,
       stdin_lines = [], promises = 0, request_settled = [], turn_settled = [],
       timers = Map.empty \<rparr>"

section \<open>Strings\<close>

text \<open>
  \<^verbatim>\<open>String(id)\<close> of an integer: its decimal digits, with a minus sign when negative.
\<close>

fun dec :: "nat \<Rightarrow> string" where
  "dec n = (if n < 10 then [''0123456789'' ! n]
            else dec (n div 10) @ [''0123456789'' ! (n mod 10)])"

declare dec.simps [simp del]

definition js_String :: "int \<Rightarrow> string" where
  "js_String i = (if i < 0 then CHR ''-'' # dec (nat (- i)) else dec (nat i))"

text \<open>
  \<^verbatim>\<open>String.prototype.trim\<close>: white space and line terminators are removed at both ends.
  Below 256 these are the code units 9 to 13, 32 and 160.
\<close>

definition is_ws :: "char \<Rightarrow> bool" where
  "is_ws c = (c = CHR 0x09 \<or> c = CHR 0x0A \<or> c = CHR 0x0B \<or> c = CHR 0x0C \<or> c = CHR 0x0D
              \<or> c = CHR 0x20 \<or> c = CHR 0xA0)"

definition js_trim :: "string \<Rightarrow> string" where
  "js_trim s = rev (dropWhile is_ws (rev (dropWhile is_ws s)))"

text \<open>\<^verbatim>\<open>!x\<close> for an optional string: absent and empty are both falsy.\<close>

fun js_not :: "string option \<Rightarrow> bool" where
  "js_not None = True"
| "js_not (Some s) = (s = [])"

section \<open>Classifying a message\<close>

definition isRpcRequest :: "'p JsonRpcMessage \<Rightarrow> bool" where
  "isRpcRequest message =
     (msg_id message \<noteq> None \<and> msg_method message \<noteq> None
      \<and> \<not> (msg_result message \<noteq> None) \<and> \<not> (msg_error message \<noteq> None))"

definition isRpcResponse :: "'p JsonRpcMessage \<Rightarrow> bool" where
  "isRpcResponse message =
     (msg_id message \<noteq> None \<and> (msg_result message \<noteq> None \<or> msg_error message \<noteq> None))"

definition isRpcNotification :: "'p JsonRpcMessage \<Rightarrow> bool" where
  "isRpcNotification message = (\<not> (msg_id message \<noteq> None) \<and> msg_method message \<noteq> None)"

definition normalizeId :: "JsonRpcId \<Rightarrow> string" where
  "normalizeId i = (case i of IdNum n \<Rightarrow> js_String n | IdStr s \<Rightarrow> s)"

definition toError :: "'p JsonRpcMessage \<Rightarrow> Error" where
  "toError response =
     Error (case msg_error response of
              None \<Rightarrow> ''Unknown JSON-RPC error''
            | Some e \<Rightarrow> (case err_message e of
                           None \<Rightarrow> ''Unknown JSON-RPC error''
                         | Some m \<Rightarrow> m))"

section \<open>Writing to the child\<close>

text \<open>\<^verbatim>\<open>writeMessage\<close> throws when there is no child or no input stream, and otherwise
  writes the serialised message as one line.\<close>

definition writeMessage :: "json JsonRpcMessage \<Rightarrow> client \<Rightarrow> Error + client" where
  "writeMessage message s =
     (if \<not> child_stdin s then Inl (Error ''codex app-server not running'')
      else Inr (s\<lparr>stdin_lines := stdin_lines s @ [message]\<rparr>))"

definition sendNotification :: "string \<Rightarrow> json option \<Rightarrow> client \<Rightarrow> Error + client" where
  "sendNotification meth params s =
     writeMessage \<lparr>msg_id = None, msg_method = Some meth, msg_params = params,
                   msg_result = None, msg_error = None\<rparr> s"

definition sendResponse :: "JsonRpcId \<Rightarrow> json \<Rightarrow> client \<Rightarrow> Error + client" where
  "sendResponse i res s =
     writeMessage \<lparr>msg_id = Some i, msg_method = None, msg_params = None,
                   msg_result = Some res, msg_error = None\<rparr> s"

definition sendError :: "JsonRpcId \<Rightarrow> rpc_error \<Rightarrow> client \<Rightarrow> Error + client" where
  "sendError i e s =
     writeMessage \<lparr>msg_id = Some i, msg_method = None, msg_params = None,
                   msg_result = None, msg_error = Some e\<rparr> s"

section \<open>The pending-request table\<close>

text \<open>
  \<^verbatim>\<open>sendRequest\<close> takes the next id, makes a promise, and in the promise's executor stores
  the entry and then writes. An exception thrown by the executor rejects the promise; the
  entry was stored before the write and nothing removes it. The result is the promise the
  caller awaits, and the new state.
\<close>

definition sendRequest :: "string \<Rightarrow> json option \<Rightarrow> client \<Rightarrow> nat \<times> client" where
  "sendRequest meth params s =
     (let i = nextId s;
          request = \<lparr>msg_id = Some (IdNum (int i)), msg_method = Some meth, msg_params = params,
                     msg_result = None, msg_error = None\<rparr>;
          p = promises s;
          s1 = s\<lparr>nextId := i + 1, promises := p + 1,
                 pending := (pending s)(js_String (int i) \<mapsto> p)\<rparr>
      in case writeMessage request s1 of
           Inl e \<Rightarrow> (p, s1\<lparr>request_settled := request_settled s1 @ [(p, Rejected e)]\<rparr>)
         | Inr s2 \<Rightarrow> (p, s2))"

section \<open>Requests of the server\<close>

text \<open>\<^verbatim>\<open>handleServerRequest\<close>, given the id and the method of the request.\<close>

definition handleServerRequest :: "JsonRpcId \<Rightarrow> string \<Rightarrow> client \<Rightarrow> Error + client" where
  "handleServerRequest i meth s =
     (if meth = ''item/commandExecution/requestApproval'' then
        (let decision = (if autoApprove (opts s) then ''accept'' else ''decline'')
         in sendResponse i (JObj [(''decision'', JStr decision)]) s)
      else if meth = ''item/fileChange/requestApproval'' then
        (let decision = (if autoApprove (opts s) then ''accept'' else ''decline'')
         in sendResponse i (JObj [(''decision'', JStr decision)]) s)
      else if meth = ''item/tool/requestUserInput'' then
        sendResponse i (JObj [(''answers'', JObj [])]) s
      else if meth = ''item/tool/call'' then
        sendResponse i (JObj [(''output'', JStr ''clawd does not support dynamic tool calls''),
                              (''success'', JBool False)]) s
      else if meth = ''account/chatgptAuthTokens/refresh'' then
        sendError i \<lparr>err_code = - 32601, err_message = Some ''auth token refresh unsupported'',
                      err_data = None\<rparr> s
      else
        sendError i \<lparr>err_code = - 32601, err_message = Some (''unsupported request: '' @ meth),
                      err_data = None\<rparr> s)"

section \<open>The turn registry\<close>

definition resolve_turn :: "TurnTracker \<Rightarrow> CodexTurnResult \<Rightarrow> client \<Rightarrow> client" where
  "resolve_turn tracker r s =
     s\<lparr>turn_settled := turn_settled s @ [(completion tracker, Resolved r)]\<rparr>"

definition clearTimeout :: "nat \<Rightarrow> client \<Rightarrow> client" where
  "clearTimeout h s = s\<lparr>timers := (timers s)(h := None)\<rparr>"

text \<open>
  \<^verbatim>\<open>handleNotification\<close>, with its three branches in the order of the source. Each
  branch returns the state as it is where the source returns early: when a member that
  its guard tests is absent or empty, or when the registry has no tracker for the turn id.
  The tracker is an object shared with the registry, so assigning to its fields is an
  update of the registry's entry.
\<close>

definition handleNotification :: "string \<Rightarrow> payload option \<Rightarrow> client \<Rightarrow> client" where
  "handleNotification meth params s =
     (if meth = ''item/agentMessage/delta'' then
        (case params of
           None \<Rightarrow> s
         | Some pl \<Rightarrow>
             if js_not (p_turnId pl) \<or> js_not (p_itemId pl) \<or> p_delta pl = None then s
             else
               (case (p_turnId pl, p_itemId pl, p_delta pl) of
                  (Some tid, Some iid, Some delta) \<Rightarrow>
                    (case turns s tid of
                       None \<Rightarrow> s
                     | Some tracker \<Rightarrow>
                         let existing = (case itemTexts tracker iid of None \<Rightarrow> [] | Some t \<Rightarrow> t);
                             next = existing @ delta;
                             trimmed = js_trim next
                         in s\<lparr>turns := (turns s)(tid \<mapsto>
                               tracker\<lparr>itemTexts := (itemTexts tracker)(iid \<mapsto> next),
                                       lastAgentText := next,
                                       lastNonEmptyText :=
                                         (if trimmed \<noteq> [] then trimmed
                                          else lastNonEmptyText tracker)\<rparr>)\<rparr>)
                | _ \<Rightarrow> s))
      else if meth = ''item/completed'' then
        (case params of
           None \<Rightarrow> s
         | Some pl \<Rightarrow>
             (case (p_turnId pl, p_item pl) of
                (Some tid, Some item) \<Rightarrow>
                  if js_not (Some tid) \<or> item_type item \<noteq> Some ''agentMessage'' then s
                  else
                    (case turns s tid of
                       None \<Rightarrow> s
                     | Some tracker \<Rightarrow>
                         let text = (case item_text item of Some t \<Rightarrow> t | None \<Rightarrow> []);
                             texts = (if js_not (item_id item) then itemTexts tracker
                                      else (case item_id item of
                                              Some iid \<Rightarrow> (itemTexts tracker)(iid \<mapsto> text)
                                            | None \<Rightarrow> itemTexts tracker));
                             trimmed = js_trim text
                         in s\<lparr>turns := (turns s)(tid \<mapsto>
                               tracker\<lparr>itemTexts := texts,
                                       lastAgentText := text,
                                       lastNonEmptyText :=
                                         (if trimmed \<noteq> [] then trimmed
                                          else lastNonEmptyText tracker)\<rparr>)\<rparr>)
              | _ \<Rightarrow> s))
      else if meth = ''turn/completed'' then
        (let turn = Option.bind params p_turn in
         case Option.bind turn turn_id of
           None \<Rightarrow> s
         | Some tid \<Rightarrow>
             if tid = [] then s
             else
               (case turns s tid of
                  None \<Rightarrow> s
                | Some tracker \<Rightarrow>
                    let s1 = s\<lparr>turns := (turns s)(tid := None)\<rparr>;
                        s2 = (case timeout tracker of None \<Rightarrow> s1 | Some h \<Rightarrow> clearTimeout h s1);
                        st = Option.bind turn turn_status
                    in if st = Some ''completed'' then
                         resolve_turn tracker
                           \<lparr>status = Completed, outputText = Some (lastNonEmptyText tracker),
                            error = None\<rparr> s2
                       else if st = Some ''interrupted'' then
                         resolve_turn tracker
                           \<lparr>status = Interrupted, outputText = Some (lastNonEmptyText tracker),
                            error = None\<rparr> s2
                       else
                         (let errorMessage =
                                (case Option.bind (Option.bind turn turn_error) terr_message of
                                   None \<Rightarrow> ''codex turn failed''
                                 | Some m \<Rightarrow> m)
                          in resolve_turn tracker
                               \<lparr>status = Failed, outputText = Some (lastNonEmptyText tracker),
                                error = Some errorMessage\<rparr> s2)))
      else s)"

text \<open>
  \<^verbatim>\<open>trackTurn\<close>: a new promise and tracker; with a positive \<^verbatim>\<open>timeoutMs\<close> a timer is armed
  before the tracker is stored. The delay of the timer only decides when the event loop
  runs its callback, which \<open>timer_fired\<close> models.
\<close>

definition trackTurn :: "string \<Rightarrow> string \<Rightarrow> int option \<Rightarrow> client \<Rightarrow> nat \<times> client" where
  "trackTurn thread tid timeoutMs s =
     (let p = promises s;
          tracker = \<lparr>threadId = thread, turnId = tid, lastAgentText = [], lastNonEmptyText = [],
                     itemTexts = Map.empty, completion = p, timeout = None\<rparr>;
          armed = (case timeoutMs of None \<Rightarrow> False | Some ms \<Rightarrow> ms \<noteq> 0 \<and> ms > 0)
      in if armed then
           (p, s\<lparr>promises := p + 1, timers := (timers s)(p \<mapsto> tid),
                  turns := (turns s)(tid \<mapsto> tracker\<lparr>timeout := Some p\<rparr>)\<rparr>)
         else
           (p, s\<lparr>promises := p + 1, turns := (turns s)(tid \<mapsto> tracker)\<rparr>))"

text \<open>The callback of the timer \<open>h\<close>. A timer that is not armed does not fire.\<close>

definition timer_fired :: "nat \<Rightarrow> client \<Rightarrow> client" where
  "timer_fired h s =
     (case timers s h of
        None \<Rightarrow> s
      | Some tid \<Rightarrow>
          s\<lparr>timers := (timers s)(h := None),
            turns := (turns s)(tid := None),
            turn_settled := turn_settled s @ [(h, Rejected (Error ''codex turn timeout''))]\<rparr>)"

text \<open>
  \<^verbatim>\<open>runTurn\<close> in its parts. It first awaits \<^verbatim>\<open>start\<close> (which, in this model, is the event
  that sets the child), then sends the request \<^verbatim>\<open>turn/start\<close>; \<open>runTurn_request\<close> is that
  request. \<open>runTurn_response\<close> is what runs once the awaited result is there, given the
  result as the cast of the source reads it: it returns the thrown error or the promise of
  the tracker, and the state it leaves.
\<close>

record runTurn_params =
  rt_threadId :: string
  rt_text :: string
  rt_model :: "string option"
  rt_effort :: "string option"
  rt_summary :: "string option"
  rt_approvalPolicy :: "string option"
  rt_timeoutMs :: "int option"

definition or_null :: "string option \<Rightarrow> json" where
  "or_null x = (case x of None \<Rightarrow> JNull | Some v \<Rightarrow> JStr v)"

definition runTurn_request :: "runTurn_params \<Rightarrow> client \<Rightarrow> nat \<times> client" where
  "runTurn_request params s =
     sendRequest ''turn/start''
       (Some (JObj [(''threadId'', JStr (rt_threadId params)),
                    (''input'', JArr [JObj [(''type'', JStr ''text''),
                                            (''text'', JStr (rt_text params)),
                                            (''text_elements'', JArr [])]]),
                    (''cwd'', JNull),
                    (''approvalPolicy'', or_null (rt_approvalPolicy params)),
                    (''sandboxPolicy'', JNull),
                    (''model'', or_null (rt_model params)),
                    (''effort'', or_null (rt_effort params)),
                    (''summary'', or_null (rt_summary params)),
                    (''personality'', JNull),
                    (''outputSchema'', JNull),
                    (''collaborationMode'', JNull)])) s"

definition runTurn_response ::
  "runTurn_params \<Rightarrow> turn_start_response option \<Rightarrow> client \<Rightarrow> (Error + nat) \<times> client" where
  "runTurn_response params response s =
     (let tid = Option.bind (Option.bind response resp_turn) ref_id in
      if js_not tid then (Inl (Error ''codex app-server turn/start missing turn id''), s)
      else
        (case tid of
           None \<Rightarrow> (Inl (Error ''codex app-server turn/start missing turn id''), s)
         | Some t \<Rightarrow>
             (let (p, s') = trackTurn (rt_threadId params) t (rt_timeoutMs params) s
              in (Inr p, s'))))"

section \<open>Dispatching an inbound message\<close>

text \<open>
  \<^verbatim>\<open>handleMessage\<close>. The promise of \<^verbatim>\<open>handleServerRequest\<close> is dropped (\<^verbatim>\<open>void\<close>), so an
  error thrown there reaches nobody and leaves the state as it was.
\<close>

definition handleMessage :: "payload JsonRpcMessage \<Rightarrow> client \<Rightarrow> client" where
  "handleMessage message s =
     (if isRpcResponse message then
        (case msg_id message of
           None \<Rightarrow> s
         | Some i \<Rightarrow>
             let key = normalizeId i in
             (case pending s key of
                None \<Rightarrow> s
              | Some p \<Rightarrow>
                  let s1 = s\<lparr>pending := (pending s)(key := None)\<rparr> in
                  if msg_error message \<noteq> None then
                    s1\<lparr>request_settled := request_settled s1 @ [(p, Rejected (toError message))]\<rparr>
                  else
                    s1\<lparr>request_settled :=
                         request_settled s1 @ [(p, Resolved (msg_result message))]\<rparr>))
      else if isRpcRequest message then
        (case (msg_id message, msg_method message) of
           (Some i, Some meth) \<Rightarrow>
             (case handleServerRequest i meth s of Inl e \<Rightarrow> s | Inr s' \<Rightarrow> s')
         | _ \<Rightarrow> s)
      else if isRpcNotification message then
        (case msg_method message of
           None \<Rightarrow> s
         | Some meth \<Rightarrow> handleNotification meth (msg_params message) s)
      else s)"

section \<open>Runs of the client\<close>

text \<open>
  Everything that changes the state of a client, as an event: a line read from the child
  and decoded (\<^verbatim>\<open>handleMessage\<close>); a request sent by \<^verbatim>\<open>startInternal\<close>, \<^verbatim>\<open>threadStart\<close>,
  \<^verbatim>\<open>threadResume\<close> or \<^verbatim>\<open>runTurn\<close>; the notification sent by \<^verbatim>\<open>startInternal\<close>; the part
  of \<^verbatim>\<open>runTurn\<close> after its awaited result; the callback of a timer; and \<^verbatim>\<open>startInternal\<close>
  or \<^verbatim>\<open>stop\<close> setting or clearing the child. Handlers run to completion, one at a time,
  so a run of the client is a list of events, and a state is reachable when some run from
  a new client ends in it. The events may come in any order, also in orders that no
  well-behaved child would produce.
\<close>

datatype event =
    Line "payload JsonRpcMessage"
  | Request string "json option"
  | Notify string "json option"
  | TurnStarted runTurn_params "turn_start_response option"
  | Timer nat
  | Child bool

fun step :: "event \<Rightarrow> client \<Rightarrow> client" where
  "step (Line m) s = handleMessage m s"
| "step (Request meth params) s = snd (sendRequest meth params s)"
| "step (Notify meth params) s =
     (case sendNotification meth params s of Inl e \<Rightarrow> s | Inr s' \<Rightarrow> s')"
| "step (TurnStarted params response) s = snd (runTurn_response params response s)"
| "step (Timer h) s = timer_fired h s"
| "step (Child b) s = s\<lparr>child_stdin := b\<rparr>"

definition run :: "client \<Rightarrow> event list \<Rightarrow> client" where
  "run s evs = foldl (\<lambda>s' e. step e s') s evs"

inductive reachable :: "client \<Rightarrow> bool" where
  reachable_initial: "reachable (initial os)"
| reachable_step: "reachable s \<Longrightarrow> reachable (step e s)"

section \<open>Vocabulary of the properties\<close>

text \<open>
  The valid messages of the specification's data model, \<^verbatim>\<open>Request {id, method, params}\<close>,
  \<^verbatim>\<open>Notification {method, params}\<close> and \<^verbatim>\<open>Response {id, result|error}\<close>: a request has an
  id and a method, a notification has a method and no id, and neither has a result or an
  error; a response has an id and a result or an error, and no method.
\<close>

definition valid_message :: "'p JsonRpcMessage \<Rightarrow> bool" where
  "valid_message m =
     ((msg_id m \<noteq> None \<and> msg_method m \<noteq> None \<and> msg_result m = None \<and> msg_error m = None)
      \<or> (msg_id m = None \<and> msg_method m \<noteq> None \<and> msg_result m = None \<and> msg_error m = None)
      \<or> (msg_id m \<noteq> None \<and> msg_method m = None
          \<and> (msg_result m \<noteq> None \<or> msg_error m \<noteq> None)))"

text \<open>Which of the three predicates hold of a message, in the order \<^verbatim>\<open>handleMessage\<close>
  tests them.\<close>

definition classes :: "'p JsonRpcMessage \<Rightarrow> bool list" where
  "classes m = filter (\<lambda>b. b) [isRpcResponse m, isRpcRequest m, isRpcNotification m]"

text \<open>An inbound notification with the given method and parameters.\<close>

definition notification :: "string \<Rightarrow> payload \<Rightarrow> payload JsonRpcMessage" where
  "notification meth pl =
     \<lparr>msg_id = None, msg_method = Some meth, msg_params = Some pl,
      msg_result = None, msg_error = None\<rparr>"

text \<open>The delta notification for turn \<open>tid\<close> and item \<open>iid\<close> carrying \<open>d\<close>; the members
  that the handler does not read are those of \<open>pl\<close>.\<close>

definition delta_of :: "payload \<Rightarrow> string \<Rightarrow> string \<Rightarrow> string \<Rightarrow> payload JsonRpcMessage" where
  "delta_of pl tid iid d =
     notification ''item/agentMessage/delta''
       (pl\<lparr>p_turnId := Some tid, p_itemId := Some iid, p_delta := Some d\<rparr>)"

text \<open>A notification of one of the three handled methods that names the turn \<open>tid\<close>.\<close>

definition names_turn :: "string \<Rightarrow> payload JsonRpcMessage \<Rightarrow> bool" where
  "names_turn tid m =
     (isRpcNotification m \<and>
      (case (msg_method m, msg_params m) of
         (Some meth, Some pl) \<Rightarrow>
           (meth = ''item/agentMessage/delta'' \<and> p_turnId pl = Some tid)
           \<or> (meth = ''item/completed'' \<and> p_turnId pl = Some tid)
           \<or> (meth = ''turn/completed'' \<and> Option.bind (p_turn pl) turn_id = Some tid)
       | _ \<Rightarrow> False))"

text \<open>A \<^verbatim>\<open>turn/completed\<close> notification for the turn \<open>tid\<close>, as an event.\<close>

fun completes_turn :: "string \<Rightarrow> event \<Rightarrow> bool" where
  "completes_turn tid (Line m) =
     (isRpcNotification m \<and> msg_method m = Some ''turn/completed''
      \<and> Option.bind (Option.bind (msg_params m) p_turn) turn_id = Some tid)"
| "completes_turn tid _ = False"

text \<open>A response whose normalised id is \<open>key\<close>, as an event.\<close>

fun answers :: "string \<Rightarrow> event \<Rightarrow> bool" where
  "answers key (Line m) =
     (isRpcResponse m \<and> (case msg_id m of None \<Rightarrow> False | Some i \<Rightarrow> normalizeId i = key))"
| "answers key _ = False"

text \<open>
  The tracker once the agent text \<open>x\<close> has been recorded for the item \<open>iid\<close>: the text of
  the item and the last seen text are \<open>x\<close>, and the last non-empty text is replaced by the
  trimmed \<open>x\<close> unless that is empty.
\<close>

definition recorded :: "string \<Rightarrow> string \<Rightarrow> TurnTracker \<Rightarrow> TurnTracker" where
  "recorded iid x tr =
     tr\<lparr>itemTexts := (itemTexts tr)(iid \<mapsto> x),
        lastAgentText := x,
        lastNonEmptyText := (if js_trim x \<noteq> [] then js_trim x else lastNonEmptyText tr)\<rparr>"

text \<open>The text accumulated so far for an item; none is the empty text.\<close>

definition text_of :: "TurnTracker \<Rightarrow> string \<Rightarrow> string" where
  "text_of tr iid = (case itemTexts tr iid of None \<Rightarrow> [] | Some t \<Rightarrow> t)"

text \<open>
  Values for examples: the options with which the runtime makes its client when nothing is
  configured, and the parameters \<^verbatim>\<open>{}\<close>.
\<close>

definition default_opts :: CodexAppServerOptions where
  "default_opts = \<lparr>command = ''codex'', args = [''app-server''], cwd = None, autoApprove = False\<rparr>"

definition no_members :: payload where
  "no_members = \<lparr>p_threadId = None, p_turnId = None, p_itemId = None, p_delta = None,
                  p_item = None, p_turn = None\<rparr>"

section \<open>Invariants\<close>

text \<open>The value of a decimal digit, and of a string of them.\<close>

definition digit_val :: "char \<Rightarrow> nat" where
  "digit_val c = of_char c - 48"

definition undec :: "string \<Rightarrow> nat" where
  "undec cs = foldl (\<lambda>a c. 10 * a + digit_val c) 0 cs"

text \<open>
  Every promise named in the table of pending requests or in the record of request
  settlements has been made.
\<close>

definition requests_ok :: "client \<Rightarrow> bool" where
  "requests_ok s \<longleftrightarrow>
     (\<forall>k p. pending s k = Some p \<longrightarrow> p < promises s) \<and>
     (\<forall>c \<in> set (request_settled s). fst c < promises s)"

text \<open>
  The registry, the timers and the record of turn settlements fit together: promises
  named anywhere have been made; the promise of an armed timer is not settled; a tracker
  is stored under its own non-empty turn id, its promise is not settled, its timer (if
  any) is the one named by its promise, an armed timer named by its promise holds its
  turn id and is the tracker's; and no two trackers share a promise.
\<close>

definition turns_ok :: "client \<Rightarrow> bool" where
  "turns_ok s \<longleftrightarrow>
     (\<forall>c \<in> set (turn_settled s). fst c < promises s) \<and>
     (\<forall>h tid. timers s h = Some tid \<longrightarrow> h < promises s \<and> awaited (turn_settled s) h = None) \<and>
     (\<forall>k tr. turns s k = Some tr \<longrightarrow>
        k \<noteq> [] \<and> turnId tr = k \<and> completion tr < promises s
        \<and> awaited (turn_settled s) (completion tr) = None
        \<and> (\<forall>h. timeout tr = Some h \<longrightarrow> h = completion tr)
        \<and> (\<forall>k'. timers s (completion tr) = Some k' \<longrightarrow> k' = k \<and> timeout tr = Some (completion tr))) \<and>
     (\<forall>k1 k2 t1 t2. turns s k1 = Some t1 \<longrightarrow> turns s k2 = Some t2 \<longrightarrow>
        completion t1 = completion t2 \<longrightarrow> k1 = k2)"

text \<open>
  The request with id \<open>i\<close> and promise \<open>p\<close> is waiting for its response: its entry is in
  the table, no other entry names its promise, and its closures have not been called. It
  has been answered: no entry names its promise, and its closures were called once.
\<close>

definition waiting :: "nat \<Rightarrow> nat \<Rightarrow> client \<Rightarrow> bool" where
  "waiting i p s \<longleftrightarrow>
     i < nextId s \<and> p < promises s \<and> pending s (js_String (int i)) = Some p
     \<and> (\<forall>k. pending s k = Some p \<longrightarrow> k = js_String (int i))
     \<and> settlements (request_settled s) p = 0"

definition answered :: "nat \<Rightarrow> nat \<Rightarrow> client \<Rightarrow> bool" where
  "answered i p s \<longleftrightarrow>
     i < nextId s \<and> p < promises s \<and> pending s (js_String (int i)) = None
     \<and> (\<forall>k. pending s k \<noteq> Some p)
     \<and> settlements (request_settled s) p = 1"

section \<open>Example states\<close>

text \<open>
  Concrete states and messages for the examples that follow the theorems:
  \<^item> \<open>started\<close>: a new client whose child has been spawned; \<open>stopped\<close>: that client after
    \<^verbatim>\<open>stop\<close>;
  \<^item> \<open>tracking\<close>: \<open>started\<close> once \<^verbatim>\<open>runTurn\<close>, called without a timeout, has got the turn id
    \<^verbatim>\<open>u1\<close>; \<open>fresh_u1\<close> is the tracker it stores;
  \<^item> \<open>spoken\<close>: \<open>tracking\<close> after the deltas \<^verbatim>\<open>Hello \<close> and \<^verbatim>\<open>world\<close> for the item \<^verbatim>\<open>i1\<close>;
    \<open>heard_u1\<close> is the tracker then;
  \<^item> \<open>timed\<close>: \<open>started\<close> once \<^verbatim>\<open>runTurn\<close>, called with a timeout of 50 ms, has got the turn
    id \<^verbatim>\<open>u1\<close>; \<open>expired\<close>: \<open>timed\<close> after one delta and then the callback of the timer;
  \<^item> \<open>asked\<close>: \<open>started\<close> after the request \<^verbatim>\<open>thread/start\<close>, which gets the id 1;
    \<open>reply1\<close> and \<open>failure1\<close> are responses to it, the second with the id as a string;
  \<^item> \<open>unsent\<close>, \<open>unasked\<close>: \<open>stopped\<close> after a request that could not be written;
  \<^item> \<open>completed_u1\<close>, \<open>final_i1\<close>: the parameters of a \<^verbatim>\<open>turn/completed\<close> for \<^verbatim>\<open>u1\<close> and of
    an \<^verbatim>\<open>item/completed\<close> for \<^verbatim>\<open>i1\<close>.
\<close>

definition started :: client where
  "started = run (initial default_opts) [Child True]"

definition stopped :: client where
  "stopped = run (initial default_opts) [Child True, Child False]"

definition plain_turn :: runTurn_params where
  "plain_turn = \<lparr>rt_threadId = ''t1'', rt_text = ''hello'', rt_model = None, rt_effort = None,
                  rt_summary = None, rt_approvalPolicy = None, rt_timeoutMs = None\<rparr>"

definition turn_u1 :: "turn_start_response option" where
  "turn_u1 = Some \<lparr>resp_turn = Some \<lparr>ref_id = Some ''u1''\<rparr>\<rparr>"

definition fresh_u1 :: TurnTracker where
  "fresh_u1 = \<lparr>threadId = ''t1'', turnId = ''u1'', lastAgentText = [], lastNonEmptyText = [],
                itemTexts = Map.empty, completion = 0, timeout = None\<rparr>"

definition tracking :: client where
  "tracking = run started [TurnStarted plain_turn turn_u1]"

definition spoken :: client where
  "spoken = run tracking [Line (delta_of no_members ''u1'' ''i1'' ''Hello ''),
                          Line (delta_of no_members ''u1'' ''i1'' ''world'')]"

definition completed_u1 :: payload where
  "completed_u1 = no_members\<lparr>p_turn := Some \<lparr>turn_id = Some ''u1'', turn_status = Some ''completed'',
                                              turn_error = None\<rparr>\<rparr>"

definition final_i1 :: payload where
  "final_i1 = no_members\<lparr>p_turnId := Some ''u1'',
                p_item := Some \<lparr>item_type = Some ''agentMessage'', item_id = Some ''i1'',
                                item_text = Some ''final''\<rparr>\<rparr>"

definition heard_u1 :: TurnTracker where
  "heard_u1 = fresh_u1\<lparr>itemTexts := [''i1'' \<mapsto> ''Hello world''], lastAgentText := ''Hello world'',
                        lastNonEmptyText := ''Hello world''\<rparr>"

definition timed_turn :: runTurn_params where
  "timed_turn = plain_turn\<lparr>rt_timeoutMs := Some 50\<rparr>"

definition timed :: client where
  "timed = snd (runTurn_response timed_turn turn_u1 started)"

definition expired :: client where
  "expired = step (Timer 0) (run timed [Line (delta_of no_members ''u1'' ''i1'' ''Hello'')])"

definition reply1 :: "payload JsonRpcMessage" where
  "reply1 = \<lparr>msg_id = Some (IdNum 1), msg_method = None, msg_params = None,
             msg_result = Some (JObj [(''thread'', JObj [(''id'', JStr ''t1'')])]),
             msg_error = None\<rparr>"

definition failure1 :: "payload JsonRpcMessage" where
  "failure1 = \<lparr>msg_id = Some (IdStr ''1''), msg_method = None, msg_params = None,
               msg_result = None,
               msg_error = Some \<lparr>err_code = - 32000, err_message = None, err_data = None\<rparr>\<rparr>"

definition asked :: client where
  "asked = snd (sendRequest ''thread/start'' None started)"

definition unsent :: client where
  "unsent = snd (sendRequest ''turn/start'' None stopped)"

definition unasked :: client where
  "unasked = snd (sendRequest ''thread/start'' None stopped)"

section \<open>Strings: lemmas\<close>

lemma digit_val_digit: "d < 10 \<Longrightarrow> digit_val (''0123456789'' ! d) = d"
proof -
  assume "d < 10"
  then consider "d = 0" | "d = 1" | "d = 2" | "d = 3" | "d = 4" | "d = 5" | "d = 6" | "d = 7"
    | "d = 8" | "d = 9" by atomize_elim arith
  then show ?thesis by cases (simp_all add: digit_val_def)
qed

lemma undec_dec: "undec (dec n) = n"
proof (induction n rule: dec.induct)
  case (1 n)
  show ?case
  proof (cases "n < 10")
    case True
    then show ?thesis by (simp add: dec.simps[of n] undec_def digit_val_digit)
  next
    case False
    then have "undec (dec (n div 10)) = n div 10" using 1 by simp
    then show ?thesis using False
      by (simp add: dec.simps[of n] undec_def digit_val_digit)
  qed
qed

lemma dec_inj: "dec a = dec b \<Longrightarrow> a = b"
  by (metis undec_dec)

lemma js_String_nat_inj: "js_String (int a) = js_String (int b) \<Longrightarrow> a = b"
  by (simp add: js_String_def dec_inj)

section \<open>Single steps\<close>

lemma js_trim_empty_iff: "js_trim s = [] \<longleftrightarrow> (\<forall>c \<in> set s. is_ws c)"
proof
  assume e: "js_trim s = []"
  show "\<forall>c \<in> set s. is_ws c"
  proof (rule ccontr)
    assume "\<not> (\<forall>c \<in> set s. is_ws c)"
    then have ne: "dropWhile is_ws s \<noteq> []" by (simp add: dropWhile_eq_Nil_conv)
    then obtain x xs where d: "dropWhile is_ws s = x # xs" by (cases "dropWhile is_ws s") auto
    then have "\<not> is_ws x" using hd_dropWhile[OF ne] by simp
    then have "dropWhile is_ws (rev (x # xs)) \<noteq> []" by (simp add: dropWhile_eq_Nil_conv)
    with e d show False by (simp add: js_trim_def)
  qed
next
  assume "\<forall>c \<in> set s. is_ws c"
  then have "dropWhile is_ws s = []" by (simp add: dropWhile_eq_Nil_conv)
  then show "js_trim s = []" by (auto simp: js_trim_def dest: set_dropWhileD)
qed

lemma js_trim_prefix_empty: "js_trim (a @ b) = [] \<Longrightarrow> js_trim a = []"
  by (simp add: js_trim_empty_iff)

lemma recorded_again:
  "recorded iid (a @ b) (recorded iid a tr) = recorded iid (a @ b) tr"
  using js_trim_prefix_empty[of a b] by (auto simp: recorded_def)

lemma text_of_recorded: "text_of (recorded iid x tr) iid = x"
  by (simp add: recorded_def text_of_def)

lemma notification_classes:
  "isRpcNotification (notification meth pl)" "\<not> isRpcResponse (notification meth pl)"
  "\<not> isRpcRequest (notification meth pl)"
  by (simp_all add: notification_def isRpcNotification_def isRpcResponse_def isRpcRequest_def)

lemma handleMessage_notification:
  "handleMessage (notification meth pl) s = handleNotification meth (Some pl) s"
  by (simp add: handleMessage_def notification_classes) (simp add: notification_def)

lemma delta_step:
  assumes "tid \<noteq> []" "iid \<noteq> []" "turns s tid = Some tr"
  shows "handleMessage (delta_of pl tid iid d) s =
     s\<lparr>turns := (turns s)(tid \<mapsto> recorded iid (text_of tr iid @ d) tr)\<rparr>"
  using assms
  by (simp add: delta_of_def handleMessage_notification handleNotification_def Let_def
      recorded_def text_of_def)

lemma run_Cons: "run s (e # evs) = run (step e s) evs"
  by (simp add: run_def)

lemma run_Nil: "run s [] = s"
  by (simp add: run_def)

lemma deltas_run:
  assumes "tid \<noteq> []" and "iid \<noteq> []" and "turns s tid = Some tr" and "ds \<noteq> []"
  shows "run s (map (\<lambda>d. Line (delta_of pl tid iid d)) ds) =
     s\<lparr>turns := (turns s)(tid \<mapsto> recorded iid (text_of tr iid @ concat ds) tr)\<rparr>"
  using assms(3,4)
proof (induction ds arbitrary: s tr)
  case Nil
  then show ?case by simp
next
  case (Cons d ds)
  let ?tr1 = "recorded iid (text_of tr iid @ d) tr"
  let ?s1 = "s\<lparr>turns := (turns s)(tid \<mapsto> ?tr1)\<rparr>"
  have st: "step (Line (delta_of pl tid iid d)) s = ?s1"
    using delta_step[OF assms(1,2) Cons.prems(1)] by simp
  show ?case
  proof (cases "ds = []")
    case True
    show ?thesis unfolding True
      by (simp only: list.map run_Cons run_Nil st concat.simps append_Nil2)
  next
    case False
    have t1: "turns ?s1 tid = Some ?tr1" by simp
    have "run ?s1 (map (\<lambda>d. Line (delta_of pl tid iid d)) ds) =
       ?s1\<lparr>turns := (turns ?s1)(tid \<mapsto> recorded iid (text_of ?tr1 iid @ concat ds) ?tr1)\<rparr>"
      by (rule Cons.IH[OF t1 False])
    also have "\<dots> = s\<lparr>turns := (turns s)(tid \<mapsto> recorded iid (text_of tr iid @ concat (d # ds)) tr)\<rparr>"
      using recorded_again[of iid "text_of tr iid @ d" "concat ds" tr]
      by (simp add: text_of_recorded)
    finally show ?thesis by (simp only: list.map run_Cons st)
  qed
qed

lemma item_completed_step:
  assumes "tid \<noteq> []" and "turns s tid = Some tr" and "p_turnId pl = Some tid" and "p_item pl = Some item"
  shows "handleMessage (notification ''item/completed'' pl) s =
    (if item_type item = Some ''agentMessage'' then
       s\<lparr>turns := (turns s)(tid \<mapsto>
          (let text = (case item_text item of None \<Rightarrow> [] | Some t \<Rightarrow> t) in
           case item_id item of
             Some iid \<Rightarrow> if iid = [] then (recorded iid text tr)\<lparr>itemTexts := itemTexts tr\<rparr>
                          else recorded iid text tr
           | None \<Rightarrow> (recorded [] text tr)\<lparr>itemTexts := itemTexts tr\<rparr>))\<rparr>
     else s)"
  using assms
  by (auto simp add: handleMessage_notification handleNotification_def Let_def
      recorded_def text_of_def split: option.splits)

lemma awaited_None_iff: "awaited xs p = None \<longleftrightarrow> p \<notin> fst ` set xs"
  by (simp add: awaited_def map_of_eq_None_iff)

lemma awaited_append:
  "awaited (xs @ [(q, v)]) p = (case awaited xs p of Some w \<Rightarrow> Some w | None \<Rightarrow> if p = q then Some v else None)"
  by (auto simp: awaited_def map_add_def split: option.splits)

lemma delta_effect:
  "handleNotification ''item/agentMessage/delta'' params s = s
   \<or> (\<exists>tid tr tr'. turns s tid = Some tr \<and> tid \<noteq> [] \<and> completion tr' = completion tr
        \<and> timeout tr' = timeout tr \<and> turnId tr' = turnId tr
        \<and> handleNotification ''item/agentMessage/delta'' params s = s\<lparr>turns := (turns s)(tid \<mapsto> tr')\<rparr>)"
proof (cases params)
  case None
  then show ?thesis by (simp add: handleNotification_def)
next
  case (Some pl)
  show ?thesis
  proof (cases "js_not (p_turnId pl) \<or> js_not (p_itemId pl) \<or> p_delta pl = None")
    case True
    then show ?thesis using Some by (simp add: handleNotification_def)
  next
    case False
    then obtain tid iid d where f: "p_turnId pl = Some tid" "tid \<noteq> []" "p_itemId pl = Some iid"
      "iid \<noteq> []" "p_delta pl = Some d"
      by (cases "p_turnId pl"; cases "p_itemId pl"; cases "p_delta pl") auto
    show ?thesis
    proof (cases "turns s tid")
      case None
      then show ?thesis using Some f by (simp add: handleNotification_def)
    next
      case (Some tr)
      let ?tr' = "recorded iid (text_of tr iid @ d) tr"
      have "handleNotification ''item/agentMessage/delta'' params s = s\<lparr>turns := (turns s)(tid \<mapsto> ?tr')\<rparr>"
        using Some f \<open>params = Some pl\<close>
        by (simp add: handleNotification_def Let_def recorded_def text_of_def)
      moreover have "completion ?tr' = completion tr \<and> timeout ?tr' = timeout tr \<and> turnId ?tr' = turnId tr"
        by (simp add: recorded_def)
      ultimately show ?thesis using Some f(2) by blast
    qed
  qed
qed

lemma item_effect:
  "handleNotification ''item/completed'' params s = s
   \<or> (\<exists>tid tr tr'. turns s tid = Some tr \<and> tid \<noteq> [] \<and> completion tr' = completion tr
        \<and> timeout tr' = timeout tr \<and> turnId tr' = turnId tr
        \<and> handleNotification ''item/completed'' params s = s\<lparr>turns := (turns s)(tid \<mapsto> tr')\<rparr>)"
proof (cases params)
  case None
  then show ?thesis by (simp add: handleNotification_def)
next
  case (Some pl)
  show ?thesis
  proof (cases "\<exists>tid item. p_turnId pl = Some tid \<and> tid \<noteq> [] \<and> p_item pl = Some item
      \<and> item_type item = Some ''agentMessage'' \<and> turns s tid \<noteq> None")
    case False
    then show ?thesis using Some
      by (auto simp: handleNotification_def split: option.splits)
  next
    case True
    then obtain tid item tr where f: "p_turnId pl = Some tid" "tid \<noteq> []" "p_item pl = Some item"
      "item_type item = Some ''agentMessage''" "turns s tid = Some tr"
      by auto
    obtain tr' where tr': "handleNotification ''item/completed'' params s = s\<lparr>turns := (turns s)(tid \<mapsto> tr')\<rparr>"
      "completion tr' = completion tr \<and> timeout tr' = timeout tr \<and> turnId tr' = turnId tr"
      using f Some
      by (cases "item_id item") (auto simp: handleNotification_def Let_def)
    then show ?thesis using f(2,5) by blast
  qed
qed

lemma turn_completed_effect:
  "handleNotification ''turn/completed'' params s = s
   \<or> (\<exists>tid tr r. Option.bind (Option.bind params p_turn) turn_id = Some tid
        \<and> turns s tid = Some tr \<and> tid \<noteq> []
        \<and> handleNotification ''turn/completed'' params s =
            s\<lparr>turns := (turns s)(tid := None),
              timers := (case timeout tr of None \<Rightarrow> timers s | Some h \<Rightarrow> (timers s)(h := None)),
              turn_settled := turn_settled s @ [(completion tr, Resolved r)]\<rparr>)"
proof (cases "\<exists>tid. Option.bind (Option.bind params p_turn) turn_id = Some tid \<and> tid \<noteq> [] \<and> turns s tid \<noteq> None")
  case False
  then show ?thesis
    by (auto simp: handleNotification_def Let_def split: option.splits)
next
  case True
  then obtain tid tr where f: "Option.bind (Option.bind params p_turn) turn_id = Some tid" "tid \<noteq> []"
    "turns s tid = Some tr" by auto
  have "\<exists>r. handleNotification ''turn/completed'' params s =
            s\<lparr>turns := (turns s)(tid := None),
              timers := (case timeout tr of None \<Rightarrow> timers s | Some h \<Rightarrow> (timers s)(h := None)),
              turn_settled := turn_settled s @ [(completion tr, Resolved r)]\<rparr>"
    using f
    by (cases "timeout tr")
      (auto simp: handleNotification_def Let_def resolve_turn_def clearTimeout_def)
  then show ?thesis using f by blast
qed

lemma handleNotification_cases:
  "handleNotification meth params s = s
   \<or> (\<exists>tid tr tr'. turns s tid = Some tr \<and> tid \<noteq> [] \<and> completion tr' = completion tr
        \<and> timeout tr' = timeout tr \<and> turnId tr' = turnId tr
        \<and> handleNotification meth params s = s\<lparr>turns := (turns s)(tid \<mapsto> tr')\<rparr>)
   \<or> (\<exists>tid tr r. turns s tid = Some tr \<and> tid \<noteq> []
        \<and> handleNotification meth params s =
            s\<lparr>turns := (turns s)(tid := None),
              timers := (case timeout tr of None \<Rightarrow> timers s | Some h \<Rightarrow> (timers s)(h := None)),
              turn_settled := turn_settled s @ [(completion tr, Resolved r)]\<rparr>)"
proof -
  consider (delta) "meth = ''item/agentMessage/delta''"
    | (item) "meth = ''item/completed''"
    | (turn) "meth = ''turn/completed''"
    | (other) "meth \<noteq> ''item/agentMessage/delta''" "meth \<noteq> ''item/completed''" "meth \<noteq> ''turn/completed''"
    by blast
  then show ?thesis
  proof cases
    case delta
    then show ?thesis using delta_effect[of params s] by blast
  next
    case item
    then show ?thesis using item_effect[of params s] by blast
  next
    case turn
    then show ?thesis using turn_completed_effect[of params s] by blast
  next
    case other
    then show ?thesis by (simp add: handleNotification_def)
  qed
qed

section \<open>The invariants hold in every reachable state\<close>

lemma turns_okI:
  assumes "\<And>c. c \<in> set (turn_settled s) \<Longrightarrow> fst c < promises s"
    and "\<And>h tid. timers s h = Some tid \<Longrightarrow> h < promises s \<and> awaited (turn_settled s) h = None"
    and "\<And>k tr. turns s k = Some tr \<Longrightarrow>
        k \<noteq> [] \<and> turnId tr = k \<and> completion tr < promises s
        \<and> awaited (turn_settled s) (completion tr) = None
        \<and> (\<forall>h. timeout tr = Some h \<longrightarrow> h = completion tr)
        \<and> (\<forall>k'. timers s (completion tr) = Some k' \<longrightarrow> k' = k \<and> timeout tr = Some (completion tr))"
    and "\<And>k1 k2 t1 t2. turns s k1 = Some t1 \<Longrightarrow> turns s k2 = Some t2 \<Longrightarrow>
        completion t1 = completion t2 \<Longrightarrow> k1 = k2"
  shows "turns_ok s"
  unfolding turns_ok_def
  apply (intro conjI ballI allI impI)
  using assms(1) apply blast
  using assms(2) apply blast
  using assms(2) apply blast
  using assms(3) apply blast
  using assms(3) apply blast
  using assms(3) apply blast
  using assms(3) apply blast
  using assms(3) apply blast
  using assms(3) apply blast
  using assms(3) apply blast
  using assms(4) apply blast
  done

lemma turns_ok_settled: "turns_ok s \<Longrightarrow> c \<in> set (turn_settled s) \<Longrightarrow> fst c < promises s"
  unfolding turns_ok_def by blast

lemma turns_ok_timer: "turns_ok s \<Longrightarrow> timers s h = Some tid \<Longrightarrow>
    h < promises s \<and> awaited (turn_settled s) h = None"
  unfolding turns_ok_def by blast

lemma turns_ok_tracker: "turns_ok s \<Longrightarrow> turns s k = Some tr \<Longrightarrow>
        k \<noteq> [] \<and> turnId tr = k \<and> completion tr < promises s
        \<and> awaited (turn_settled s) (completion tr) = None
        \<and> (\<forall>h. timeout tr = Some h \<longrightarrow> h = completion tr)
        \<and> (\<forall>k'. timers s (completion tr) = Some k' \<longrightarrow> k' = k \<and> timeout tr = Some (completion tr))"
  unfolding turns_ok_def by blast

lemma turns_ok_unique: "turns_ok s \<Longrightarrow> turns s k1 = Some t1 \<Longrightarrow> turns s k2 = Some t2 \<Longrightarrow>
        completion t1 = completion t2 \<Longrightarrow> k1 = k2"
  unfolding turns_ok_def by blast

lemma turns_ok_frame:
  assumes ok: "turns_ok s" and t: "turns s' = turns s" and tm: "timers s' = timers s"
    and ts: "turn_settled s' = turn_settled s" and le: "promises s \<le> promises s'"
  shows "turns_ok s'"
proof (rule turns_okI)
  fix c assume "c \<in> set (turn_settled s')"
  then show "fst c < promises s'" using turns_ok_settled[OF ok, of c] le ts by simp
next
  fix h tid assume "timers s' h = Some tid"
  then show "h < promises s' \<and> awaited (turn_settled s') h = None"
    using turns_ok_timer[OF ok, of h tid] le ts tm by simp
next
  fix k tr assume "turns s' k = Some tr"
  then have "turns s k = Some tr" using t by simp
  from turns_ok_tracker[OF ok this] have d: "k \<noteq> [] \<and> turnId tr = k \<and> completion tr < promises s
        \<and> awaited (turn_settled s) (completion tr) = None
        \<and> (\<forall>h. timeout tr = Some h \<longrightarrow> h = completion tr)
        \<and> (\<forall>k'. timers s (completion tr) = Some k' \<longrightarrow> k' = k \<and> timeout tr = Some (completion tr))" .
  then have "completion tr < promises s'" using le by linarith
  then show "k \<noteq> [] \<and> turnId tr = k \<and> completion tr < promises s'
        \<and> awaited (turn_settled s') (completion tr) = None
        \<and> (\<forall>h. timeout tr = Some h \<longrightarrow> h = completion tr)
        \<and> (\<forall>k'. timers s' (completion tr) = Some k' \<longrightarrow> k' = k \<and> timeout tr = Some (completion tr))"
    unfolding ts tm using d by blast
next
  fix k1 k2 t1 t2
  assume "turns s' k1 = Some t1" "turns s' k2 = Some t2" "completion t1 = completion t2"
  then show "k1 = k2" using turns_ok_unique[OF ok, of k1 t1 k2 t2] t by simp
qed

lemma requests_ok_frame:
  assumes ok: "requests_ok s" and p: "pending s' = pending s"
    and rs: "request_settled s' = request_settled s" and le: "promises s \<le> promises s'"
  shows "requests_ok s'"
proof -
  have m: "\<And>x. x < promises s \<Longrightarrow> x < promises s'" using le by simp
  show ?thesis
    unfolding requests_ok_def p rs
    using ok m unfolding requests_ok_def by blast
qed

lemma turns_ok_update:
  assumes ok: "turns_ok s" and tr: "turns s tid = Some tr" and c: "completion tr' = completion tr"
    and to: "timeout tr' = timeout tr" and ti: "turnId tr' = turnId tr"
  shows "turns_ok (s\<lparr>turns := (turns s)(tid \<mapsto> tr')\<rparr>)"
proof (rule turns_okI)
  fix x assume "x \<in> set (turn_settled (s\<lparr>turns := (turns s)(tid \<mapsto> tr')\<rparr>))"
  then show "fst x < promises (s\<lparr>turns := (turns s)(tid \<mapsto> tr')\<rparr>)"
    using turns_ok_settled[OF ok, of x] by simp
next
  fix h k assume "timers (s\<lparr>turns := (turns s)(tid \<mapsto> tr')\<rparr>) h = Some k"
  then show "h < promises (s\<lparr>turns := (turns s)(tid \<mapsto> tr')\<rparr>)
      \<and> awaited (turn_settled (s\<lparr>turns := (turns s)(tid \<mapsto> tr')\<rparr>)) h = None"
    using turns_ok_timer[OF ok, of h k] by simp
next
  fix k t assume a: "turns (s\<lparr>turns := (turns s)(tid \<mapsto> tr')\<rparr>) k = Some t"
  let ?s' = "s\<lparr>turns := (turns s)(tid \<mapsto> tr')\<rparr>"
  have f: "promises ?s' = promises s" "turn_settled ?s' = turn_settled s" "timers ?s' = timers s"
    by simp_all
  show "k \<noteq> [] \<and> turnId t = k \<and> completion t < promises ?s'
        \<and> awaited (turn_settled ?s') (completion t) = None
        \<and> (\<forall>h. timeout t = Some h \<longrightarrow> h = completion t)
        \<and> (\<forall>k'. timers ?s' (completion t) = Some k' \<longrightarrow> k' = k \<and> timeout t = Some (completion t))"
  proof (cases "k = tid")
    case True
    then have "t = tr'" using a by simp
    then show ?thesis unfolding f using turns_ok_tracker[OF ok tr] True c to ti by metis
  next
    case False
    then have "turns s k = Some t" using a by simp
    from turns_ok_tracker[OF ok this] show ?thesis unfolding f .
  qed
next
  fix k1 k2 t1 t2
  let ?s' = "s\<lparr>turns := (turns s)(tid \<mapsto> tr')\<rparr>"
  assume a: "turns ?s' k1 = Some t1" "turns ?s' k2 = Some t2" "completion t1 = completion t2"
  have "\<exists>u1. turns s k1 = Some u1 \<and> completion u1 = completion t1"
    using a(1) tr c by (cases "k1 = tid") auto
  moreover have "\<exists>u2. turns s k2 = Some u2 \<and> completion u2 = completion t2"
    using a(2) tr c by (cases "k2 = tid") auto
  ultimately show "k1 = k2" using turns_ok_unique[OF ok] a(3) by metis
qed

lemma turns_ok_complete:
  assumes ok: "turns_ok s" and tr: "turns s tid = Some tr"
  shows "turns_ok (s\<lparr>turns := (turns s)(tid := None),
              timers := (case timeout tr of None \<Rightarrow> timers s | Some h \<Rightarrow> (timers s)(h := None)),
              turn_settled := turn_settled s @ [(completion tr, Resolved r)]\<rparr>)"
proof -
  let ?tm = "case timeout tr of None \<Rightarrow> timers s | Some h \<Rightarrow> (timers s)(h := None)"
  let ?s' = "s\<lparr>turns := (turns s)(tid := None), timers := ?tm,
              turn_settled := turn_settled s @ [(completion tr, Resolved r)]\<rparr>"
  have f: "promises ?s' = promises s"
    "turn_settled ?s' = turn_settled s @ [(completion tr, Resolved r)]"
    "timers ?s' = ?tm" "turns ?s' = (turns s)(tid := None)"
    by simp_all
  note d = turns_ok_tracker[OF ok tr]
  have d3: "completion tr < promises s" using d by blast
  have d5: "\<And>h. timeout tr = Some h \<Longrightarrow> h = completion tr" using d by blast
  have d6: "\<And>k'. timers s (completion tr) = Some k' \<Longrightarrow> timeout tr = Some (completion tr)"
    using d by blast
  have uniq: "\<And>k t. turns s k = Some t \<Longrightarrow> completion t = completion tr \<Longrightarrow> k = tid"
    using turns_ok_unique[OF ok _ tr] by blast
  have tm: "\<And>h k. ?tm h = Some k \<Longrightarrow> timers s h = Some k \<and> h \<noteq> completion tr"
  proof -
    fix h k assume a: "?tm h = Some k"
    show "timers s h = Some k \<and> h \<noteq> completion tr"
    proof (cases "timeout tr")
      case None
      then have "timers s h = Some k" using a by simp
      moreover have "h \<noteq> completion tr" using d6 None calculation by auto
      ultimately show ?thesis by simp
    next
      case (Some h')
      then have "h' = completion tr" using d5 by simp
      then show ?thesis using a Some by (auto split: if_splits)
    qed
  qed
  show ?thesis
  proof (rule turns_okI)
    fix c assume "c \<in> set (turn_settled ?s')"
    then show "fst c < promises ?s'"
      unfolding f using turns_ok_settled[OF ok, of c] d3 by auto
  next
    fix h k assume "timers ?s' h = Some k"
    then have a: "timers s h = Some k" "h \<noteq> completion tr" unfolding f using tm by blast+
    then have "h < promises s" "awaited (turn_settled s) h = None"
      using turns_ok_timer[OF ok a(1)] by blast+
    then show "h < promises ?s' \<and> awaited (turn_settled ?s') h = None"
      unfolding f using a(2) by (simp add: awaited_append)
  next
    fix k t assume "turns ?s' k = Some t"
    then have a: "turns s k = Some t" "k \<noteq> tid" unfolding f by (auto split: if_splits)
    then have ne: "completion t \<noteq> completion tr" using uniq by blast
    note b = turns_ok_tracker[OF ok a(1)]
    have b4: "awaited (turn_settled s @ [(completion tr, Resolved r)]) (completion t) = None"
      using b ne by (simp add: awaited_append)
    have b6: "\<forall>k'. ?tm (completion t) = Some k' \<longrightarrow> k' = k \<and> timeout t = Some (completion t)"
      using b tm by blast
    show "k \<noteq> [] \<and> turnId t = k \<and> completion t < promises ?s'
        \<and> awaited (turn_settled ?s') (completion t) = None
        \<and> (\<forall>h. timeout t = Some h \<longrightarrow> h = completion t)
        \<and> (\<forall>k'. timers ?s' (completion t) = Some k' \<longrightarrow> k' = k \<and> timeout t = Some (completion t))"
      unfolding f using b b4 b6 by blast
  next
    fix k1 k2 t1 t2
    assume "turns ?s' k1 = Some t1" "turns ?s' k2 = Some t2" "completion t1 = completion t2"
    then have "turns s k1 = Some t1" "turns s k2 = Some t2" "completion t1 = completion t2"
      unfolding f by (auto split: if_splits)
    then show "k1 = k2" using turns_ok_unique[OF ok] by blast
  qed
qed

lemma turns_ok_timer_fired:
  assumes ok: "turns_ok s"
  shows "turns_ok (timer_fired h s)"
proof (cases "timers s h")
  case None
  then show ?thesis using ok by (simp add: timer_fired_def)
next
  case (Some tid)
  let ?s' = "s\<lparr>timers := (timers s)(h := None), turns := (turns s)(tid := None),
            turn_settled := turn_settled s @ [(h, Rejected (Error ''codex turn timeout''))]\<rparr>"
  have e: "timer_fired h s = ?s'" using Some by (simp add: timer_fired_def)
  have f: "promises ?s' = promises s"
    "turn_settled ?s' = turn_settled s @ [(h, Rejected (Error ''codex turn timeout''))]"
    "timers ?s' = (timers s)(h := None)" "turns ?s' = (turns s)(tid := None)"
    by simp_all
  have hp: "h < promises s" using turns_ok_timer[OF ok Some] by blast
  have other: "\<And>k t. turns s k = Some t \<Longrightarrow> k \<noteq> tid \<Longrightarrow> completion t \<noteq> h"
  proof
    fix k t assume a: "turns s k = Some t" "k \<noteq> tid" "completion t = h"
    then have "timers s (completion t) = Some tid" using Some by simp
    then have "tid = k" using turns_ok_tracker[OF ok a(1)] by blast
    then show False using a(2) by simp
  qed
  have "turns_ok ?s'"
  proof (rule turns_okI)
    fix c assume "c \<in> set (turn_settled ?s')"
    then show "fst c < promises ?s'"
      unfolding f using turns_ok_settled[OF ok, of c] hp by auto
  next
    fix h' k assume "timers ?s' h' = Some k"
    then have a: "timers s h' = Some k" "h' \<noteq> h" unfolding f by (auto split: if_splits)
    then have "h' < promises s" "awaited (turn_settled s) h' = None"
      using turns_ok_timer[OF ok a(1)] by blast+
    then show "h' < promises ?s' \<and> awaited (turn_settled ?s') h' = None"
      unfolding f using a(2) by (simp add: awaited_append)
  next
    fix k t assume "turns ?s' k = Some t"
    then have a: "turns s k = Some t" "k \<noteq> tid" unfolding f by (auto split: if_splits)
    then have ne: "completion t \<noteq> h" using other by blast
    note b = turns_ok_tracker[OF ok a(1)]
    have b4: "awaited (turn_settled s @ [(h, Rejected (Error ''codex turn timeout''))]) (completion t) = None"
      using b ne by (simp add: awaited_append)
    have tmeq: "((timers s)(h := None)) (completion t) = timers s (completion t)"
      using ne by simp
    show "k \<noteq> [] \<and> turnId t = k \<and> completion t < promises ?s'
        \<and> awaited (turn_settled ?s') (completion t) = None
        \<and> (\<forall>h. timeout t = Some h \<longrightarrow> h = completion t)
        \<and> (\<forall>k'. timers ?s' (completion t) = Some k' \<longrightarrow> k' = k \<and> timeout t = Some (completion t))"
      unfolding f tmeq using b b4 by blast
  next
    fix k1 k2 t1 t2
    assume "turns ?s' k1 = Some t1" "turns ?s' k2 = Some t2" "completion t1 = completion t2"
    then have "turns s k1 = Some t1" "turns s k2 = Some t2" "completion t1 = completion t2"
      unfolding f by (auto split: if_splits)
    then show "k1 = k2" using turns_ok_unique[OF ok] by blast
  qed
  then show ?thesis using e by simp
qed

lemma trackTurn_eq:
  "trackTurn thread tid timeoutMs s =
    (promises s,
     s\<lparr>promises := promises s + 1,
       timers := (if (case timeoutMs of None \<Rightarrow> False | Some ms \<Rightarrow> 0 < ms) then (timers s)(promises s \<mapsto> tid) else timers s),
       turns := (turns s)(tid \<mapsto>
         \<lparr>threadId = thread, turnId = tid, lastAgentText = [], lastNonEmptyText = [],
          itemTexts = Map.empty, completion = promises s,
          timeout = (if (case timeoutMs of None \<Rightarrow> False | Some ms \<Rightarrow> 0 < ms) then Some (promises s) else None)\<rparr>)\<rparr>)"
  by (auto simp: trackTurn_def Let_def split: option.splits)

lemma turns_ok_trackTurn:
  assumes ok: "turns_ok s" and ne: "tid \<noteq> []"
  shows "turns_ok (snd (trackTurn thread tid timeoutMs s))"
proof -
  let ?armed = "case timeoutMs of None \<Rightarrow> False | Some ms \<Rightarrow> 0 < ms"
  let ?p = "promises s"
  let ?tr = "\<lparr>threadId = thread, turnId = tid, lastAgentText = [], lastNonEmptyText = [],
          itemTexts = Map.empty, completion = ?p,
          timeout = (if ?armed then Some ?p else None)\<rparr>"
  let ?tm = "if ?armed then (timers s)(?p \<mapsto> tid) else timers s"
  let ?s' = "s\<lparr>promises := ?p + 1, timers := ?tm, turns := (turns s)(tid \<mapsto> ?tr)\<rparr>"
  have e: "snd (trackTurn thread tid timeoutMs s) = ?s'" by (simp add: trackTurn_eq)
  have f: "promises ?s' = ?p + 1" "turn_settled ?s' = turn_settled s"
    "timers ?s' = ?tm" "turns ?s' = (turns s)(tid \<mapsto> ?tr)"
    by simp_all
  have fresh_settled: "awaited (turn_settled s) ?p = None"
    using turns_ok_settled[OF ok] by (force simp: awaited_None_iff)
  have fresh_timer: "timers s ?p = None"
  proof (cases "timers s ?p")
    case (Some k) then show ?thesis using turns_ok_timer[OF ok Some] by simp
  qed simp
  have "turns_ok ?s'"
  proof (rule turns_okI)
    fix c assume "c \<in> set (turn_settled ?s')"
    then show "fst c < promises ?s'"
      unfolding f using turns_ok_settled[OF ok, of c] by auto
  next
    fix h k assume a: "timers ?s' h = Some k"
    show "h < promises ?s' \<and> awaited (turn_settled ?s') h = None"
    proof (cases "h = ?p")
      case True
      then show ?thesis unfolding f using fresh_settled by simp
    next
      case False
      then have "timers s h = Some k" using a unfolding f by (auto split: if_splits)
      from turns_ok_timer[OF ok this] show ?thesis unfolding f by simp
    qed
  next
    fix k t assume a: "turns ?s' k = Some t"
    show "k \<noteq> [] \<and> turnId t = k \<and> completion t < promises ?s'
        \<and> awaited (turn_settled ?s') (completion t) = None
        \<and> (\<forall>h. timeout t = Some h \<longrightarrow> h = completion t)
        \<and> (\<forall>k'. timers ?s' (completion t) = Some k' \<longrightarrow> k' = k \<and> timeout t = Some (completion t))"
    proof (cases "k = tid")
      case True
      then have t: "t = ?tr" using a unfolding f by simp
      show ?thesis unfolding f t using True ne fresh_settled fresh_timer by simp
    next
      case False
      then have b: "turns s k = Some t" using a unfolding f by simp
      note d = turns_ok_tracker[OF ok b]
      have lt: "completion t < ?p" using d by blast
      then have d3: "completion t < ?p + 1" by simp
      have tmeq: "?tm (completion t) = timers s (completion t)" using lt by simp
      show ?thesis unfolding f tmeq using d d3 by blast
    qed
  next
    fix k1 k2 t1 t2
    assume a: "turns ?s' k1 = Some t1" "turns ?s' k2 = Some t2" "completion t1 = completion t2"
    have lt: "\<And>k t. turns s k = Some t \<Longrightarrow> completion t < ?p"
      using turns_ok_tracker[OF ok] by blast
    show "k1 = k2"
    proof (cases "k1 = tid"; cases "k2 = tid")
      assume "k1 = tid" "k2 = tid" then show ?thesis by simp
    next
      assume b: "k1 = tid" "k2 \<noteq> tid"
      then have "completion t1 = ?p" "turns s k2 = Some t2" using a unfolding f by auto
      then show ?thesis using lt a(3) by force
    next
      assume b: "k1 \<noteq> tid" "k2 = tid"
      then have "completion t2 = ?p" "turns s k1 = Some t1" using a unfolding f by auto
      then show ?thesis using lt a(3) by force
    next
      assume b: "k1 \<noteq> tid" "k2 \<noteq> tid"
      then have "turns s k1 = Some t1" "turns s k2 = Some t2" using a unfolding f by auto
      then show ?thesis using turns_ok_unique[OF ok] a(3) by blast
    qed
  qed
  then show ?thesis using e by simp
qed

lemma sendRequest_eq:
  "sendRequest meth params s =
     (promises s,
      s\<lparr>nextId := nextId s + 1, promises := promises s + 1,
        pending := (pending s)(js_String (int (nextId s)) \<mapsto> promises s),
        stdin_lines :=
          (if child_stdin s then
             stdin_lines s @ [\<lparr>msg_id = Some (IdNum (int (nextId s))), msg_method = Some meth,
                               msg_params = params, msg_result = None, msg_error = None\<rparr>]
           else stdin_lines s),
        request_settled :=
          (if child_stdin s then request_settled s
           else request_settled s @ [(promises s, Rejected (Error ''codex app-server not running''))])\<rparr>)"
  by (simp add: sendRequest_def writeMessage_def Let_def)

lemma handleServerRequest_writes:
  "handleServerRequest i meth s =
     writeMessage
       (if meth = ''item/commandExecution/requestApproval'' \<or> meth = ''item/fileChange/requestApproval'' then
          \<lparr>msg_id = Some i, msg_method = None, msg_params = None,
           msg_result = Some (JObj [(''decision'', JStr (if autoApprove (opts s) then ''accept'' else ''decline''))]),
           msg_error = None\<rparr>
        else if meth = ''item/tool/requestUserInput'' then
          \<lparr>msg_id = Some i, msg_method = None, msg_params = None,
           msg_result = Some (JObj [(''answers'', JObj [])]), msg_error = None\<rparr>
        else if meth = ''item/tool/call'' then
          \<lparr>msg_id = Some i, msg_method = None, msg_params = None,
           msg_result = Some (JObj [(''output'', JStr ''clawd does not support dynamic tool calls''),
                                    (''success'', JBool False)]),
           msg_error = None\<rparr>
        else if meth = ''account/chatgptAuthTokens/refresh'' then
          \<lparr>msg_id = Some i, msg_method = None, msg_params = None, msg_result = None,
           msg_error = Some \<lparr>err_code = - 32601, err_message = Some ''auth token refresh unsupported'',
                             err_data = None\<rparr>\<rparr>
        else
          \<lparr>msg_id = Some i, msg_method = None, msg_params = None, msg_result = None,
           msg_error = Some \<lparr>err_code = - 32601, err_message = Some (''unsupported request: '' @ meth),
                             err_data = None\<rparr>\<rparr>) s"
  unfolding handleServerRequest_def sendResponse_def sendError_def Let_def
  by simp

lemma handleServerRequest_cases:
  "handleServerRequest i meth s = Inl (Error ''codex app-server not running'')
   \<or> (\<exists>x. handleServerRequest i meth s = Inr (s\<lparr>stdin_lines := x\<rparr>))"
  unfolding handleServerRequest_writes
  by (cases "child_stdin s") (simp_all only: writeMessage_def if_True if_False not_True_eq_False not_False_eq_True, blast+)

lemma handleMessage_response:
  assumes "isRpcResponse m" and "msg_id m = Some i"
  shows "handleMessage m s =
    (case pending s (normalizeId i) of
       None \<Rightarrow> s
     | Some p \<Rightarrow>
         s\<lparr>pending := (pending s)(normalizeId i := None),
           request_settled := request_settled s @
             [(p, if msg_error m \<noteq> None then Rejected (toError m) else Resolved (msg_result m))]\<rparr>)"
  using assms by (simp add: handleMessage_def Let_def split: option.splits)

lemma handleMessage_cases:
  "handleMessage m s = s
   \<or> (\<exists>i p out. isRpcResponse m \<and> msg_id m = Some i \<and> pending s (normalizeId i) = Some p
        \<and> handleMessage m s =
            s\<lparr>pending := (pending s)(normalizeId i := None),
              request_settled := request_settled s @ [(p, out)]\<rparr>)
   \<or> (\<not> isRpcResponse m \<and> (\<exists>x. handleMessage m s = s\<lparr>stdin_lines := x\<rparr>))
   \<or> (\<not> isRpcResponse m \<and> isRpcNotification m
        \<and> (\<exists>meth. msg_method m = Some meth
              \<and> handleMessage m s = handleNotification meth (msg_params m) s))"
proof (cases "isRpcResponse m")
  case True
  then obtain i where i: "msg_id m = Some i" by (auto simp: isRpcResponse_def)
  show ?thesis
  proof (cases "pending s (normalizeId i)")
    case None
    then show ?thesis using handleMessage_response[OF True i, of s] by simp
  next
    case (Some p)
    then show ?thesis using handleMessage_response[OF True i, of s] True i by auto
  qed
next
  case False
  show ?thesis
  proof (cases "isRpcRequest m")
    case True
    then obtain i meth where im: "msg_id m = Some i" "msg_method m = Some meth"
      by (auto simp: isRpcRequest_def)
    then have "handleMessage m s = (case handleServerRequest i meth s of Inl e \<Rightarrow> s | Inr s' \<Rightarrow> s')"
      using False True by (simp add: handleMessage_def)
    then show ?thesis using handleServerRequest_cases[of i meth s] False by auto
  next
    case nr: False
    show ?thesis
    proof (cases "isRpcNotification m")
      case True
      then obtain meth where "msg_method m = Some meth" by (auto simp: isRpcNotification_def)
      then show ?thesis using False nr True by (simp add: handleMessage_def)
    next
      case False
      then show ?thesis using nr \<open>\<not> isRpcResponse m\<close> by (simp add: handleMessage_def)
    qed
  qed
qed

lemma handleNotification_requests:
  "pending (handleNotification meth params s) = pending s
   \<and> request_settled (handleNotification meth params s) = request_settled s
   \<and> promises (handleNotification meth params s) = promises s
   \<and> nextId (handleNotification meth params s) = nextId s
   \<and> child_stdin (handleNotification meth params s) = child_stdin s"
  using handleNotification_cases[of meth params s] by (elim disjE exE conjE) simp_all

lemma turns_ok_handleNotification:
  assumes "turns_ok s" shows "turns_ok (handleNotification meth params s)"
  using handleNotification_cases[of meth params s]
proof (elim disjE exE conjE)
  assume "handleNotification meth params s = s"
  then show ?thesis using assms by simp
next
  fix tid tr tr'
  assume "turns s tid = Some tr" "completion tr' = completion tr" "timeout tr' = timeout tr"
    "turnId tr' = turnId tr" "handleNotification meth params s = s\<lparr>turns := (turns s)(tid \<mapsto> tr')\<rparr>"
  then show ?thesis using turns_ok_update[OF assms] by simp
next
  fix tid tr r
  assume "turns s tid = Some tr" "handleNotification meth params s =
       s\<lparr>turns := (turns s)(tid := None),
         timers := case timeout tr of None \<Rightarrow> timers s | Some h \<Rightarrow> (timers s)(h := None),
         turn_settled := turn_settled s @ [(completion tr, Resolved r)]\<rparr>"
  then show ?thesis using turns_ok_complete[OF assms] by simp
qed

lemma turns_ok_step:
  assumes ok: "turns_ok s" shows "turns_ok (step e s)"
proof (cases e)
  case (Line m)
  show ?thesis using handleMessage_cases[of m s]
  proof (elim disjE exE conjE)
    assume "handleMessage m s = s" then show ?thesis using ok Line by simp
  next
    fix i p out
    assume "handleMessage m s = s\<lparr>pending := (pending s)(normalizeId i := None),
         request_settled := request_settled s @ [(p, out)]\<rparr>"
    then show ?thesis using Line turns_ok_frame[OF ok] by simp
  next
    fix x assume "handleMessage m s = s\<lparr>stdin_lines := x\<rparr>"
    then show ?thesis using Line turns_ok_frame[OF ok] by simp
  next
    fix meth assume "handleMessage m s = handleNotification meth (msg_params m) s"
    then show ?thesis using Line turns_ok_handleNotification[OF ok] by simp
  qed
next
  case (Request meth params)
  then show ?thesis using turns_ok_frame[OF ok] by (simp add: sendRequest_eq)
next
  case (Notify meth params)
  then show ?thesis using turns_ok_frame[OF ok]
    by (simp add: sendNotification_def writeMessage_def)
next
  case (TurnStarted params response)
  show ?thesis
  proof (cases "js_not (Option.bind (Option.bind response resp_turn) ref_id)")
    case True
    then show ?thesis using TurnStarted ok by (simp add: runTurn_response_def)
  next
    case False
    then obtain t where t: "Option.bind (Option.bind response resp_turn) ref_id = Some t" "t \<noteq> []"
      by (cases "Option.bind (Option.bind response resp_turn) ref_id") auto
    then have "step e s = snd (trackTurn (rt_threadId params) t (rt_timeoutMs params) s)"
      using TurnStarted by (simp add: runTurn_response_def split: prod.splits)
    then show ?thesis using turns_ok_trackTurn[OF ok t(2)] by simp
  qed
next
  case (Timer h)
  then show ?thesis using turns_ok_timer_fired[OF ok] by simp
next
  case (Child b)
  then show ?thesis using turns_ok_frame[OF ok] by simp
qed

lemma requests_ok_step:
  assumes ok: "requests_ok s" shows "requests_ok (step e s)"
proof (cases e)
  case (Line m)
  show ?thesis using handleMessage_cases[of m s]
  proof (elim disjE exE conjE)
    assume "handleMessage m s = s" then show ?thesis using ok Line by simp
  next
    fix i p out
    assume "pending s (normalizeId i) = Some p"
      "handleMessage m s = s\<lparr>pending := (pending s)(normalizeId i := None),
         request_settled := request_settled s @ [(p, out)]\<rparr>"
    then show ?thesis using Line ok unfolding requests_ok_def by (auto split: if_splits)
  next
    fix x assume "handleMessage m s = s\<lparr>stdin_lines := x\<rparr>"
    then show ?thesis using Line requests_ok_frame[OF ok] by simp
  next
    fix meth assume "handleMessage m s = handleNotification meth (msg_params m) s"
    then show ?thesis using Line requests_ok_frame[OF ok] handleNotification_requests[of meth "msg_params m" s]
      by simp
  qed
next
  case (Request meth params)
  then show ?thesis using ok unfolding requests_ok_def
    by (auto simp: sendRequest_eq less_Suc_eq split: if_splits)
next
  case (Notify meth params)
  then show ?thesis using requests_ok_frame[OF ok]
    by (simp add: sendNotification_def writeMessage_def)
next
  case (TurnStarted params response)
  have "pending (step e s) = pending s \<and> request_settled (step e s) = request_settled s
        \<and> promises s \<le> promises (step e s)"
    using TurnStarted
    by (auto simp: runTurn_response_def trackTurn_eq Let_def split: option.splits)
  then show ?thesis using requests_ok_frame[OF ok] by simp
next
  case (Timer h)
  then show ?thesis using requests_ok_frame[OF ok]
    by (simp add: timer_fired_def split: option.splits)
next
  case (Child b)
  then show ?thesis using requests_ok_frame[OF ok] by simp
qed

lemma reachable_ok: "reachable s \<Longrightarrow> requests_ok s \<and> turns_ok s"
proof (induction rule: reachable.induct)
  case (reachable_initial os)
  show ?case by (simp add: requests_ok_def turns_ok_def initial_def)
next
  case (reachable_step s e)
  then show ?case using requests_ok_step turns_ok_step by blast
qed

lemma reachable_run: "reachable s \<Longrightarrow> reachable (run s evs)"
  by (induction evs arbitrary: s) (simp_all add: run_def reachable_step)

section \<open>Turns and timers\<close>

lemma reachable_turns_ok: "reachable s \<Longrightarrow> turns_ok s"
  using reachable_ok by blast

lemma turn_completed_step:
  assumes "tid \<noteq> []" and "turns s tid = Some tr" and "p_turn pl = Some tu" and "turn_id tu = Some tid"
  shows "handleMessage (notification ''turn/completed'' pl) s =
     s\<lparr>turns := (turns s)(tid := None),
       timers := (case timeout tr of None \<Rightarrow> timers s | Some h \<Rightarrow> (timers s)(h := None)),
       turn_settled := turn_settled s @
         [(completion tr,
           Resolved
             (if turn_status tu = Some ''completed'' then
                \<lparr>status = Completed, outputText = Some (lastNonEmptyText tr), error = None\<rparr>
              else if turn_status tu = Some ''interrupted'' then
                \<lparr>status = Interrupted, outputText = Some (lastNonEmptyText tr), error = None\<rparr>
              else
                \<lparr>status = Failed, outputText = Some (lastNonEmptyText tr),
                 error = Some (case Option.bind (turn_error tu) terr_message of
                                 None \<Rightarrow> ''codex turn failed'' | Some m \<Rightarrow> m)\<rparr>))]\<rparr>"
  using assms
  by (cases "timeout tr")
    (simp_all add: handleMessage_notification handleNotification_def Let_def resolve_turn_def
      clearTimeout_def)

lemma handleNotification_timers_other:
  assumes "meth \<noteq> ''turn/completed''"
  shows "timers (handleNotification meth params s) = timers s"
proof -
  consider (delta) "meth = ''item/agentMessage/delta''" | (item) "meth = ''item/completed''"
    | (other) "meth \<noteq> ''item/agentMessage/delta''" "meth \<noteq> ''item/completed''"
    by blast
  then show ?thesis
  proof cases
    case delta
    then show ?thesis using delta_effect[of params s] by (elim disjE exE conjE) simp_all
  next
    case item
    then show ?thesis using item_effect[of params s] by (elim disjE exE conjE) simp_all
  next
    case other
    then show ?thesis using assms by (simp add: handleNotification_def)
  qed
qed

lemma armed_step:
  assumes ok: "turns_ok s" and armed: "timers s p = Some tid"
    and nc: "\<not> completes_turn tid e" and nt: "e \<noteq> Timer p"
  shows "timers (step e s) p = Some tid"
proof (cases e)
  case (Line m)
  show ?thesis using handleMessage_cases[of m s]
  proof (elim disjE exE conjE)
    assume "handleMessage m s = s" then show ?thesis using armed Line by simp
  next
    fix i q out
    assume "handleMessage m s = s\<lparr>pending := (pending s)(normalizeId i := None),
         request_settled := request_settled s @ [(q, out)]\<rparr>"
    then show ?thesis using Line armed by simp
  next
    fix x assume "handleMessage m s = s\<lparr>stdin_lines := x\<rparr>"
    then show ?thesis using Line armed by simp
  next
    fix meth
    assume n: "isRpcNotification m" "msg_method m = Some meth"
      and h: "handleMessage m s = handleNotification meth (msg_params m) s"
    show ?thesis
    proof (cases "meth = ''turn/completed''")
      case False
      then show ?thesis using handleNotification_timers_other[of meth "msg_params m" s] h Line armed
        by simp
    next
      case True
      from turn_completed_effect[of "msg_params m" s] show ?thesis
      proof (elim disjE exE conjE)
        assume "handleNotification ''turn/completed'' (msg_params m) s = s"
        then show ?thesis using h True Line armed by simp
      next
        fix tid' tr r
        assume t: "Option.bind (Option.bind (msg_params m) p_turn) turn_id = Some tid'"
          "turns s tid' = Some tr"
          and e: "handleNotification ''turn/completed'' (msg_params m) s =
            s\<lparr>turns := (turns s)(tid' := None),
              timers := (case timeout tr of None \<Rightarrow> timers s | Some h \<Rightarrow> (timers s)(h := None)),
              turn_settled := turn_settled s @ [(completion tr, Resolved r)]\<rparr>"
        have ne: "tid' \<noteq> tid" using nc Line n True t(1) by auto
        note d = turns_ok_tracker[OF ok t(2)]
        have "timeout tr \<noteq> Some p"
        proof
          assume a: "timeout tr = Some p"
          then have "p = completion tr" using d by blast
          then have "timers s (completion tr) = Some tid" using armed by simp
          then have "tid = tid'" using d by blast
          then show False using ne by simp
        qed
        then have "(case timeout tr of None \<Rightarrow> timers s | Some h \<Rightarrow> (timers s)(h := None)) p = timers s p"
          by (cases "timeout tr") auto
        then show ?thesis using e h True Line armed by simp
      qed
    qed
  qed
next
  case (Request meth params)
  then show ?thesis using armed by (simp add: sendRequest_eq)
next
  case (Notify meth params)
  then show ?thesis using armed by (simp add: sendNotification_def writeMessage_def)
next
  case (TurnStarted params response)
  have "p < promises s" using turns_ok_timer[OF ok armed] by blast
  then show ?thesis using TurnStarted armed
    by (auto simp: runTurn_response_def trackTurn_eq Let_def split: option.splits)
next
  case (Timer h)
  then have "h \<noteq> p" using nt by simp
  then show ?thesis using Timer armed by (simp add: timer_fired_def split: option.splits)
next
  case (Child b)
  then show ?thesis using armed by simp
qed

lemma armed_run:
  assumes "reachable s" and "timers s p = Some tid"
    and "\<forall>e \<in> set evs. \<not> completes_turn tid e \<and> e \<noteq> Timer p"
  shows "timers (run s evs) p = Some tid"
  using assms
proof (induction evs arbitrary: s)
  case Nil
  then show ?case by (simp add: run_Nil)
next
  case (Cons e evs)
  have "timers (step e s) p = Some tid"
    using armed_step[OF reachable_turns_ok[OF Cons.prems(1)] Cons.prems(2)] Cons.prems(3) by simp
  moreover have "reachable (step e s)" using Cons.prems(1) by (rule reachable_step)
  ultimately show ?case using Cons.IH Cons.prems(3) by (simp add: run_Cons)
qed

lemma late_notification:
  assumes "turns s tid = None" and "names_turn tid m"
  shows "handleMessage m s = s"
proof -
  from assms(2) obtain meth pl where m: "isRpcNotification m" "msg_method m = Some meth"
    "msg_params m = Some pl"
    and c: "(meth = ''item/agentMessage/delta'' \<and> p_turnId pl = Some tid)
           \<or> (meth = ''item/completed'' \<and> p_turnId pl = Some tid)
           \<or> (meth = ''turn/completed'' \<and> Option.bind (p_turn pl) turn_id = Some tid)"
    by (auto simp: names_turn_def split: option.splits)
  have nr: "\<not> isRpcResponse m" "\<not> isRpcRequest m"
    using m(1) by (auto simp: isRpcNotification_def isRpcResponse_def isRpcRequest_def)
  have "handleMessage m s = handleNotification meth (Some pl) s"
    using m nr by (simp add: handleMessage_def)
  also have "\<dots> = s"
    using c assms(1)
    by (elim disjE conjE) (auto simp: handleNotification_def Let_def split: option.splits)
  finally show ?thesis .
qed

lemma late_notifications:
  assumes "turns s tid = None" and "\<forall>m \<in> set late. names_turn tid m"
  shows "run s (map Line late) = s"
  using assms(2)
  by (induction late) (simp_all add: run_Nil run_Cons late_notification[OF assms(1)])

section \<open>The life of a pending request\<close>

lemma reachable_requests_ok: "reachable s \<Longrightarrow> requests_ok s"
  using reachable_ok by blast

lemma settlements_append:
  "settlements (xs @ [(q, v)]) p = settlements xs p + (if q = p then 1 else 0)"
  by (simp add: settlements_def)

lemma settlements_fresh: "\<forall>c \<in> set xs. fst c < p \<Longrightarrow> settlements xs p = 0"
  by (auto simp: settlements_def filter_empty_conv)

text \<open>What a step does to the table of pending requests.\<close>

lemma step_requests:
  "(pending (step e s) = pending s \<and> request_settled (step e s) = request_settled s
      \<and> nextId (step e s) = nextId s \<and> promises s \<le> promises (step e s))
   \<or> (\<exists>i p out. answers (normalizeId i) e \<and> pending s (normalizeId i) = Some p
        \<and> pending (step e s) = (pending s)(normalizeId i := None)
        \<and> request_settled (step e s) = request_settled s @ [(p, out)]
        \<and> nextId (step e s) = nextId s \<and> promises (step e s) = promises s)
   \<or> (pending (step e s) = (pending s)(js_String (int (nextId s)) \<mapsto> promises s)
        \<and> nextId (step e s) = nextId s + 1 \<and> promises (step e s) = promises s + 1
        \<and> request_settled (step e s) =
            (if child_stdin s then request_settled s
             else request_settled s @
                    [(promises s, Rejected (Error ''codex app-server not running''))]))"
proof (cases e)
  case (Line m)
  show ?thesis using handleMessage_cases[of m s]
  proof (elim disjE exE conjE)
    assume "handleMessage m s = s" then show ?thesis using Line by simp
  next
    fix i p out
    assume "isRpcResponse m" "msg_id m = Some i" "pending s (normalizeId i) = Some p"
      "handleMessage m s = s\<lparr>pending := (pending s)(normalizeId i := None),
         request_settled := request_settled s @ [(p, out)]\<rparr>"
    then have "answers (normalizeId i) e \<and> pending s (normalizeId i) = Some p
        \<and> pending (step e s) = (pending s)(normalizeId i := None)
        \<and> request_settled (step e s) = request_settled s @ [(p, out)]
        \<and> nextId (step e s) = nextId s \<and> promises (step e s) = promises s"
      using Line by simp
    then show ?thesis by blast
  next
    fix x assume "handleMessage m s = s\<lparr>stdin_lines := x\<rparr>"
    then show ?thesis using Line by simp
  next
    fix meth assume "handleMessage m s = handleNotification meth (msg_params m) s"
    then show ?thesis using Line handleNotification_requests[of meth "msg_params m" s] by simp
  qed
next
  case (Request meth params)
  then show ?thesis by (simp add: sendRequest_eq)
next
  case (Notify meth params)
  then show ?thesis by (simp add: sendNotification_def writeMessage_def)
next
  case (TurnStarted params response)
  then show ?thesis
    by (auto simp: runTurn_response_def trackTurn_eq Let_def split: option.splits)
next
  case (Timer h)
  then show ?thesis by (simp add: timer_fired_def split: option.splits)
next
  case (Child b)
  then show ?thesis by simp
qed

lemma waiting_step:
  assumes w: "waiting i p s" and na: "\<not> answers (js_String (int i)) e"
  shows "waiting i p (step e s)"
  using step_requests[of e s]
proof (elim disjE exE conjE)
  assume "pending (step e s) = pending s" "request_settled (step e s) = request_settled s"
    "nextId (step e s) = nextId s" "promises s \<le> promises (step e s)"
  then show ?thesis using w unfolding waiting_def by auto
next
  fix j q out
  assume a: "answers (normalizeId j) e" "pending s (normalizeId j) = Some q"
    "pending (step e s) = (pending s)(normalizeId j := None)"
    "request_settled (step e s) = request_settled s @ [(q, out)]"
    "nextId (step e s) = nextId s" "promises (step e s) = promises s"
  have ne: "normalizeId j \<noteq> js_String (int i)" using a(1) na by auto
  then have "q \<noteq> p" using a(2) w unfolding waiting_def by auto
  then show ?thesis using w a ne unfolding waiting_def by (auto simp: settlements_append)
next
  assume a: "pending (step e s) = (pending s)(js_String (int (nextId s)) \<mapsto> promises s)"
    "nextId (step e s) = nextId s + 1" "promises (step e s) = promises s + 1"
    "request_settled (step e s) =
       (if child_stdin s then request_settled s
        else request_settled s @ [(promises s, Rejected (Error ''codex app-server not running''))])"
  have "i \<noteq> nextId s" "p \<noteq> promises s" using w unfolding waiting_def by auto
  then have ne: "js_String (int (nextId s)) \<noteq> js_String (int i)" using js_String_nat_inj by blast
  have "settlements (request_settled (step e s)) p = 0"
    using a(4) w \<open>p \<noteq> promises s\<close> unfolding waiting_def by (auto simp: settlements_append)
  then show ?thesis using w a(1,2,3) ne \<open>p \<noteq> promises s\<close> unfolding waiting_def by auto
qed

lemma waiting_answer:
  assumes w: "waiting i p s" and an: "answers (js_String (int i)) e"
  shows "answered i p (step e s)"
proof -
  obtain m j where m: "e = Line m" "isRpcResponse m" "msg_id m = Some j"
    "normalizeId j = js_String (int i)"
    using an by (cases e) (auto split: option.splits)
  have "pending s (normalizeId j) = Some p" using w m(4) unfolding waiting_def by simp
  then have "step e s =
      s\<lparr>pending := (pending s)(normalizeId j := None),
        request_settled := request_settled s @
          [(p, if msg_error m \<noteq> None then Rejected (toError m) else Resolved (msg_result m))]\<rparr>"
    using handleMessage_response[OF m(2,3), of s] m(1) by simp
  then show ?thesis using w m(4) unfolding waiting_def answered_def
    by (auto simp: settlements_append)
qed

lemma answered_step:
  assumes w: "answered i p s"
  shows "answered i p (step e s)"
  using step_requests[of e s]
proof (elim disjE exE conjE)
  assume "pending (step e s) = pending s" "request_settled (step e s) = request_settled s"
    "nextId (step e s) = nextId s" "promises s \<le> promises (step e s)"
  then show ?thesis using w unfolding answered_def by auto
next
  fix j q out
  assume a: "pending s (normalizeId j) = Some q"
    "pending (step e s) = (pending s)(normalizeId j := None)"
    "request_settled (step e s) = request_settled s @ [(q, out)]"
    "nextId (step e s) = nextId s" "promises (step e s) = promises s"
  have "q \<noteq> p" using a(1) w unfolding answered_def by auto
  then show ?thesis using w a unfolding answered_def by (auto simp: settlements_append)
next
  assume a: "pending (step e s) = (pending s)(js_String (int (nextId s)) \<mapsto> promises s)"
    "nextId (step e s) = nextId s + 1" "promises (step e s) = promises s + 1"
    "request_settled (step e s) =
       (if child_stdin s then request_settled s
        else request_settled s @ [(promises s, Rejected (Error ''codex app-server not running''))])"
  have "i \<noteq> nextId s" "p \<noteq> promises s" using w unfolding answered_def by auto
  then have ne: "js_String (int (nextId s)) \<noteq> js_String (int i)" using js_String_nat_inj by blast
  have "settlements (request_settled (step e s)) p = 1"
    using a(4) w \<open>p \<noteq> promises s\<close> unfolding answered_def by (auto simp: settlements_append)
  then show ?thesis using w a(1,2,3) ne \<open>p \<noteq> promises s\<close> unfolding answered_def by auto
qed

lemma answered_run: "answered i p s \<Longrightarrow> answered i p (run s evs)"
  by (induction evs arbitrary: s) (simp_all add: run_Nil run_Cons answered_step)

lemma waiting_run:
  assumes "waiting i p s"
  shows "if (\<exists>e \<in> set evs. answers (js_String (int i)) e) then answered i p (run s evs)
         else waiting i p (run s evs)"
  using assms
proof (induction evs arbitrary: s)
  case Nil
  then show ?case by (simp add: run_Nil)
next
  case (Cons e evs)
  show ?case
  proof (cases "answers (js_String (int i)) e")
    case True
    then show ?thesis using answered_run[OF waiting_answer[OF Cons.prems True]]
      by (simp add: run_Cons)
  next
    case False
    then show ?thesis using Cons.IH[OF waiting_step[OF Cons.prems False]]
      by (simp add: run_Cons)
  qed
qed

lemma sendRequest_waiting:
  assumes "reachable s0" and "child_stdin s0" and "sendRequest meth params s0 = (p, s1)"
  shows "waiting (nextId s0) p s1"
proof -
  have ok: "requests_ok s0" using assms(1) by (rule reachable_requests_ok)
  have p: "p = promises s0" using assms(3) by (simp add: sendRequest_eq)
  have a: "\<And>k. pending s0 k \<noteq> Some (promises s0)" using ok unfolding requests_ok_def by fastforce
  have b: "settlements (request_settled s0) (promises s0) = 0"
    using ok unfolding requests_ok_def by (simp add: settlements_fresh)
  have s1: "s1 = snd (sendRequest meth params s0)" using assms(3) by simp
  have c: "pending s1 = (pending s0)(js_String (int (nextId s0)) \<mapsto> promises s0)"
    "request_settled s1 = request_settled s0" "nextId s1 = nextId s0 + 1"
    "promises s1 = promises s0 + 1"
    unfolding s1 using assms(2) by (simp_all add: sendRequest_eq)
  have u: "\<forall>k. pending s1 k = Some (promises s0) \<longrightarrow> k = js_String (int (nextId s0))"
    unfolding c using a by (simp split: if_splits)
  have 1: "nextId s0 < nextId s1" "promises s0 < promises s1" using c by simp_all
  have 2: "pending s1 (js_String (int (nextId s0))) = Some (promises s0)" using c by simp
  have 3: "settlements (request_settled s1) (promises s0) = 0" using b c by simp
  show ?thesis unfolding waiting_def p using 1 2 3 u by blast
qed

lemma unmatched_response:
  assumes "isRpcResponse m" and "msg_id m = Some i" and "pending s (normalizeId i) = None"
  shows "handleMessage m s = s"
  using handleMessage_response[OF assms(1,2), of s] assms(3) by simp

lemma kept_step:
  assumes "i < nextId s" and "pending s (js_String (int i)) = Some p"
    and "\<not> answers (js_String (int i)) e"
  shows "i < nextId (step e s) \<and> pending (step e s) (js_String (int i)) = Some p"
  using step_requests[of e s]
proof (elim disjE exE conjE)
  assume "pending (step e s) = pending s" "nextId (step e s) = nextId s"
  then show ?thesis using assms by simp
next
  fix j q out
  assume a: "answers (normalizeId j) e"
    "pending (step e s) = (pending s)(normalizeId j := None)" "nextId (step e s) = nextId s"
  have "normalizeId j \<noteq> js_String (int i)" using a(1) assms(3) by auto
  then show ?thesis using a assms by simp
next
  assume a: "pending (step e s) = (pending s)(js_String (int (nextId s)) \<mapsto> promises s)"
    "nextId (step e s) = nextId s + 1"
  have "js_String (int (nextId s)) \<noteq> js_String (int i)"
    using assms(1) js_String_nat_inj[of "nextId s" i] by auto
  then show ?thesis using a assms by simp
qed

lemma answer_removes:
  assumes "answers key e"
  shows "pending (step e s) key = None \<and> nextId (step e s) = nextId s"
proof -
  obtain m j where m: "e = Line m" "isRpcResponse m" "msg_id m = Some j" "normalizeId j = key"
    using assms by (cases e) (auto split: option.splits)
  show ?thesis
    using handleMessage_response[OF m(2,3), of s] m(1,4)
    by (cases "pending s (normalizeId j)") simp_all
qed

lemma gone_step:
  assumes "i < nextId s" and "pending s (js_String (int i)) = None"
  shows "i < nextId (step e s) \<and> pending (step e s) (js_String (int i)) = None"
  using step_requests[of e s]
proof (elim disjE exE conjE)
  assume "pending (step e s) = pending s" "nextId (step e s) = nextId s"
  then show ?thesis using assms by simp
next
  fix j
  assume a: "pending (step e s) = (pending s)(normalizeId j := None)" "nextId (step e s) = nextId s"
  then show ?thesis using assms by simp
next
  assume a: "pending (step e s) = (pending s)(js_String (int (nextId s)) \<mapsto> promises s)"
    "nextId (step e s) = nextId s + 1"
  have "js_String (int (nextId s)) \<noteq> js_String (int i)"
    using assms(1) js_String_nat_inj[of "nextId s" i] by auto
  then show ?thesis using a assms by simp
qed

lemma gone_run:
  assumes "i < nextId s" and "pending s (js_String (int i)) = None"
  shows "pending (run s evs) (js_String (int i)) = None"
  using assms
proof (induction evs arbitrary: s)
  case Nil
  then show ?case by (simp add: run_Nil)
next
  case (Cons e evs)
  have "i < nextId (step e s) \<and> pending (step e s) (js_String (int i)) = None"
    using gone_step[OF Cons.prems] by simp
  then show ?case using Cons.IH by (simp add: run_Cons)
qed

lemma entry_run:
  assumes "i < nextId s" and "pending s (js_String (int i)) = Some p"
  shows "pending (run s evs) (js_String (int i)) =
           (if (\<exists>e \<in> set evs. answers (js_String (int i)) e) then None else Some p)"
  using assms
proof (induction evs arbitrary: s)
  case Nil
  then show ?case by (simp add: run_Nil)
next
  case (Cons e evs)
  show ?case
  proof (cases "answers (js_String (int i)) e")
    case True
    have "i < nextId (step e s)" "pending (step e s) (js_String (int i)) = None"
      using answer_removes[OF True, of s] Cons.prems(1) by simp_all
    then show ?thesis using gone_run[of i "step e s" evs] True by (simp add: run_Cons)
  next
    case False
    have "i < nextId (step e s) \<and> pending (step e s) (js_String (int i)) = Some p"
      using kept_step[OF Cons.prems False] by simp
    then show ?thesis using Cons.IH[of "step e s"] False by (simp add: run_Cons)
  qed
qed

lemma awaited_kept_step:
  assumes "awaited (request_settled s) p = Some v"
  shows "awaited (request_settled (step e s)) p = Some v"
  using step_requests[of e s] assms
  by (elim disjE exE conjE) (simp_all add: awaited_append)

lemma awaited_kept_run:
  "awaited (request_settled s) p = Some v \<Longrightarrow> awaited (request_settled (run s evs)) p = Some v"
  by (induction evs arbitrary: s) (simp_all add: run_Nil run_Cons awaited_kept_step)

section \<open>The example states\<close>

lemma reachable_started: "reachable started"
  unfolding started_def by (rule reachable_run[OF reachable_initial])

lemma reachable_stopped: "reachable stopped"
  unfolding stopped_def by (rule reachable_run[OF reachable_initial])

lemma reachable_tracking: "reachable tracking"
  unfolding tracking_def by (rule reachable_run[OF reachable_started])

lemma reachable_spoken: "reachable spoken"
  unfolding spoken_def by (rule reachable_run[OF reachable_tracking])

lemma started_eq:
  "started = (initial default_opts)\<lparr>child_stdin := True\<rparr>"
  by (simp add: started_def run_def)

lemma tracking_eq:
  "tracking = started\<lparr>promises := 1, turns := [''u1'' \<mapsto> fresh_u1]\<rparr>"
  by (simp add: tracking_def run_def runTurn_response_def turn_u1_def plain_turn_def
      trackTurn_def fresh_u1_def started_eq initial_def)

lemma turns_tracking: "turns tracking ''u1'' = Some fresh_u1"
  by (simp add: tracking_eq)

lemma js_String_1: "js_String 1 = ''1''"
  by (simp add: js_String_def dec.simps)

lemma stopped_eq: "stopped = initial default_opts"
  by (simp add: stopped_def run_def initial_def)

lemma spoken_eq: "spoken = tracking\<lparr>turns := [''u1'' \<mapsto> heard_u1]\<rparr>"
  using deltas_run[of "''u1''" "''i1''" tracking fresh_u1 "[''Hello '', ''world'']" no_members]
  by (simp add: spoken_def tracking_eq recorded_def text_of_def fresh_u1_def heard_u1_def
      js_trim_def is_ws_def)

lemma asked_eq:
  "asked = started\<lparr>nextId := 2, promises := 1, pending := [''1'' \<mapsto> 0],
      stdin_lines := [\<lparr>msg_id = Some (IdNum 1), msg_method = Some ''thread/start'',
                       msg_params = None, msg_result = None, msg_error = None\<rparr>]\<rparr>"
  by (simp add: asked_def sendRequest_eq started_eq initial_def js_String_1)

lemma unasked_eq:
  "unasked = stopped\<lparr>nextId := 2, promises := 1, pending := [''1'' \<mapsto> 0],
      request_settled := [(0, Rejected (Error ''codex app-server not running''))]\<rparr>"
  by (simp add: unasked_def sendRequest_eq stopped_eq initial_def js_String_1)

lemma reachable_unsent: "reachable unsent"
  unfolding unsent_def
  using reachable_step[OF reachable_stopped, of "Request ''turn/start'' None"] by simp

lemma unsent_eq:
  "unsent = stopped\<lparr>nextId := 2, promises := 1, pending := [''1'' \<mapsto> 0],
      request_settled := [(0, Rejected (Error ''codex app-server not running''))]\<rparr>"
  by (simp add: unsent_def sendRequest_eq stopped_eq initial_def js_String_1)

section \<open>The turn registry: terminal notification\<close>

text \<open>
  C1. In every reachable state, let \<open>tr\<close> be the tracker stored under the turn id \<open>tid\<close>.
  Handling a \<^verbatim>\<open>turn/completed\<close> notification whose \<^verbatim>\<open>turn.id\<close> is \<open>tid\<close> calls the
  tracker's \<^verbatim>\<open>resolve\<close> (and not its \<^verbatim>\<open>reject\<close>). The caller, who had received nothing so
  far, receives: for the status \<^verbatim>\<open>completed\<close> the result with status completed and, as
  output text, the tracker's last non-empty trimmed text; for \<^verbatim>\<open>interrupted\<close> the same with
  status interrupted; for any other or no status the result with status failed, the same
  output text, and as error the message of the turn's error, or \<^verbatim>\<open>codex turn failed\<close> when
  there is none. The tracker is gone from the registry.
\<close>

theorem turn_completed_resolves:
  assumes "reachable s" and "turns s tid = Some tr"
    and "p_turn pl = Some tu" and "turn_id tu = Some tid"
  shows "let s' = handleMessage (notification ''turn/completed'' pl) s;
             r = (if turn_status tu = Some ''completed'' then
                    \<lparr>status = Completed, outputText = Some (lastNonEmptyText tr), error = None\<rparr>
                  else if turn_status tu = Some ''interrupted'' then
                    \<lparr>status = Interrupted, outputText = Some (lastNonEmptyText tr), error = None\<rparr>
                  else
                    \<lparr>status = Failed, outputText = Some (lastNonEmptyText tr),
                     error = Some (case Option.bind (turn_error tu) terr_message of
                                     None \<Rightarrow> ''codex turn failed'' | Some m \<Rightarrow> m)\<rparr>)
         in awaited (turn_settled s) (completion tr) = None
          \<and> turn_settled s' = turn_settled s @ [(completion tr, Resolved r)]
          \<and> awaited (turn_settled s') (completion tr) = Some (Resolved r)
          \<and> turns s' tid = None"
proof -
  note d = turns_ok_tracker[OF reachable_turns_ok[OF assms(1)] assms(2)]
  have ne: "tid \<noteq> []" and un: "awaited (turn_settled s) (completion tr) = None"
    using d by blast+
  show ?thesis
    unfolding Let_def turn_completed_step[OF ne assms(2,3,4)]
    using un by (simp add: awaited_append)
qed

theorem turn_completed_resolves_witness:
  "reachable spoken \<and> turns spoken ''u1'' = Some heard_u1
   \<and> awaited (turn_settled spoken) 0 = None
   \<and> awaited (turn_settled (handleMessage (notification ''turn/completed'' completed_u1) spoken)) 0 =
       Some (Resolved \<lparr>status = Completed, outputText = Some ''Hello world'', error = None\<rparr>)
   \<and> turns (handleMessage (notification ''turn/completed'' completed_u1) spoken) ''u1'' = None"
proof -
  have t: "turns spoken ''u1'' = Some heard_u1" by (simp add: spoken_eq)
  have p: "p_turn completed_u1 = Some \<lparr>turn_id = Some ''u1'', turn_status = Some ''completed'',
      turn_error = None\<rparr>"
    by (simp add: completed_u1_def)
  have i: "turn_id \<lparr>turn_id = Some ''u1'', turn_status = Some ''completed'', turn_error = None\<rparr>
      = Some ''u1''" by simp
  show ?thesis
    using turn_completed_resolves[OF reachable_spoken t p i] reachable_spoken t
    by (simp add: Let_def heard_u1_def fresh_u1_def awaited_append)
qed

section \<open>The turn registry: timeout\<close>

text \<open>
  C2. Let a turn be started from a reachable state with a positive timeout, so that
  \<^verbatim>\<open>runTurn\<close> tracks its turn id \<open>tid\<close> and awaits the promise \<open>p\<close>. Whatever happens next, as
  long as no \<^verbatim>\<open>turn/completed\<close> notification for \<open>tid\<close> is handled before the timer's callback
  runs, the caller is still waiting; the callback rejects the caller with the error
  \<^verbatim>\<open>codex turn timeout\<close> and leaves no tracker under \<open>tid\<close>; and any delta, item-completed
  or turn-completed notifications for \<open>tid\<close> handled after that leave the state as it is.
  (The delay itself only decides when the callback runs.)
\<close>

theorem timeout_rejects:
  assumes "reachable s0"
    and "runTurn_response params response s0 = (Inr p, s1)"
    and "rt_timeoutMs params = Some T" and "0 < T"
    and "Option.bind (Option.bind response resp_turn) ref_id = Some tid"
    and "\<forall>e \<in> set evs. \<not> completes_turn tid e \<and> e \<noteq> Timer p"
    and "\<forall>m \<in> set late. names_turn tid m"
  shows "let s2 = step (Timer p) (run s1 evs) in
           awaited (turn_settled (run s1 evs)) p = None
         \<and> awaited (turn_settled s2) p = Some (Rejected (Error ''codex turn timeout''))
         \<and> turns s2 tid = None
         \<and> run s2 (map Line late) = s2"
proof -
  have ne: "tid \<noteq> []" using assms(2,5) by (auto simp: runTurn_response_def split: if_splits)
  have s1: "s1 = snd (trackTurn (rt_threadId params) tid (Some T) s0)"
    and p: "p = promises s0"
    using assms(2,3,5) ne by (auto simp: runTurn_response_def trackTurn_eq split: prod.splits)
  have st: "s1 = step (TurnStarted params response) s0" using assms(2) by simp
  have r1: "reachable s1" unfolding st using assms(1) by (rule reachable_step)
  have a1: "timers s1 p = Some tid" using s1 p assms(4) by (simp add: trackTurn_eq)
  let ?s = "run s1 evs"
  have rs: "reachable ?s" using r1 by (rule reachable_run)
  have armed: "timers ?s p = Some tid" using armed_run[OF r1 a1 assms(6)] .
  have un: "awaited (turn_settled ?s) p = None"
    using turns_ok_timer[OF reachable_turns_ok[OF rs] armed] by blast
  let ?s2 = "?s\<lparr>timers := (timers ?s)(p := None), turns := (turns ?s)(tid := None),
            turn_settled := turn_settled ?s @ [(p, Rejected (Error ''codex turn timeout''))]\<rparr>"
  have e: "step (Timer p) ?s = ?s2" using armed by (simp add: timer_fired_def)
  have gone: "turns ?s2 tid = None" by simp
  have "awaited (turn_settled ?s2) p = Some (Rejected (Error ''codex turn timeout''))"
    using un by (simp add: awaited_append)
  moreover have "run ?s2 (map Line late) = ?s2"
    using late_notifications[OF gone assms(7)] .
  ultimately show ?thesis unfolding Let_def e using un gone by simp
qed

theorem timeout_rejects_witness:
  "reachable started
   \<and> runTurn_response timed_turn turn_u1 started = (Inr 0, timed)
   \<and> rt_timeoutMs timed_turn = Some 50
   \<and> awaited (turn_settled expired) 0 = Some (Rejected (Error ''codex turn timeout''))
   \<and> turns expired ''u1'' = None
   \<and> run expired [Line (notification ''turn/completed'' completed_u1),
                   Line (delta_of no_members ''u1'' ''i1'' ''late'')] = expired"
proof -
  have h2: "runTurn_response timed_turn turn_u1 started = (Inr 0, timed)"
    by (simp add: timed_def timed_turn_def runTurn_response_def turn_u1_def plain_turn_def
        trackTurn_def started_eq initial_def)
  have h3: "rt_timeoutMs timed_turn = Some 50" by (simp add: timed_turn_def plain_turn_def)
  have h5: "Option.bind (Option.bind turn_u1 resp_turn) ref_id = Some ''u1''"
    by (simp add: turn_u1_def)
  have h6: "\<forall>e \<in> set [Line (delta_of no_members ''u1'' ''i1'' ''Hello'')].
      \<not> completes_turn ''u1'' e \<and> e \<noteq> Timer 0"
    by (simp add: delta_of_def notification_def)
  have h7: "\<forall>m \<in> set [notification ''turn/completed'' completed_u1,
      delta_of no_members ''u1'' ''i1'' ''late'']. names_turn ''u1'' m"
    by (simp add: names_turn_def delta_of_def notification_def completed_u1_def
        isRpcNotification_def)
  show ?thesis
    using timeout_rejects[OF reachable_started h2 h3 _ h5 h6 h7] reachable_started h2 h3
    by (simp add: Let_def expired_def)
qed

section \<open>The turn registry: agent text\<close>

text \<open>
  C3. In every reachable state with a tracker under \<open>tid\<close>, handling one after the other
  the delta notifications for the turn \<open>tid\<close> and the item \<open>iid\<close> (both non-empty, as the
  handler requires) that carry the strings \<open>ds\<close> leaves the state unchanged but for that
  tracker: the text of the item is its former text (empty when it had none) followed by
  the deltas in the order of arrival, the last seen agent text is that same text, and the
  last non-empty text is its trimmed form unless the trimmed form is empty. Since \<open>ds\<close> is
  any non-empty list, this holds after each delta. The deltas \<^verbatim>\<open>Hel\<close>, \<^verbatim>\<open>lo \<close>,
  \<^verbatim>\<open>world\<close> on a fresh item give \<^verbatim>\<open>Hello world\<close>.
\<close>

theorem deltas_accumulate:
  assumes "reachable s" and "turns s tid = Some tr" and "iid \<noteq> []" and "ds \<noteq> []"
  shows "run s (map (\<lambda>d. Line (delta_of pl tid iid d)) ds) =
           s\<lparr>turns := (turns s)(tid \<mapsto> recorded iid (text_of tr iid @ concat ds) tr)\<rparr>
       \<and> itemTexts (recorded iid (text_of tr iid @ concat ds) tr) iid
           = Some (text_of tr iid @ concat ds)
       \<and> lastAgentText (recorded iid (text_of tr iid @ concat ds) tr) = text_of tr iid @ concat ds
       \<and> lastNonEmptyText (recorded iid (text_of tr iid @ concat ds) tr) =
           (if js_trim (text_of tr iid @ concat ds) \<noteq> [] then js_trim (text_of tr iid @ concat ds)
            else lastNonEmptyText tr)"
proof -
  have ne: "tid \<noteq> []"
    using turns_ok_tracker[OF reachable_turns_ok[OF assms(1)] assms(2)] by blast
  show ?thesis
    using deltas_run[OF ne assms(3) assms(2) assms(4), of pl] by (simp add: recorded_def)
qed

theorem deltas_accumulate_witness:
  "reachable tracking \<and> turns tracking ''u1'' = Some fresh_u1
   \<and> text_of fresh_u1 ''i1'' = []
   \<and> run tracking (map (\<lambda>d. Line (delta_of no_members ''u1'' ''i1'' d)) [''Hel'', ''lo '', ''world'']) =
       tracking\<lparr>turns := [''u1'' \<mapsto>
         fresh_u1\<lparr>itemTexts := [''i1'' \<mapsto> ''Hello world''], lastAgentText := ''Hello world'',
                   lastNonEmptyText := ''Hello world''\<rparr>]\<rparr>"
proof -
  have ne: "''i1'' \<noteq> []" "[''Hel'', ''lo '', ''world''] \<noteq> []" by simp_all
  show ?thesis
    using deltas_accumulate[OF reachable_tracking turns_tracking ne, of no_members]
      reachable_tracking turns_tracking
    by (simp add: recorded_def text_of_def fresh_u1_def js_trim_def is_ws_def tracking_eq)
qed

text \<open>
  C4. In every reachable state with a tracker under \<open>tid\<close>, an \<^verbatim>\<open>item/completed\<close>
  notification for the turn \<open>tid\<close> whose item has the type \<^verbatim>\<open>agentMessage\<close> and the
  (non-empty) id \<open>iid\<close> replaces the text of that item by the item's text (the empty text
  when the item has none), whatever had been accumulated, and sets the last seen and the
  last non-empty text as a delta would. When the type of the item is not
  \<^verbatim>\<open>agentMessage\<close> the state is unchanged.
\<close>

theorem item_completed_overwrites:
  assumes "reachable s" and "turns s tid = Some tr"
    and "p_turnId pl = Some tid" and "p_item pl = Some item"
  shows "(item_type item = Some ''agentMessage'' \<and> item_id item = Some iid \<and> iid \<noteq> []
            \<longrightarrow> handleMessage (notification ''item/completed'' pl) s =
                  s\<lparr>turns := (turns s)(tid \<mapsto>
                       recorded iid (case item_text item of None \<Rightarrow> [] | Some t \<Rightarrow> t) tr)\<rparr>)
       \<and> (item_type item \<noteq> Some ''agentMessage''
            \<longrightarrow> handleMessage (notification ''item/completed'' pl) s = s)"
proof -
  have ne: "tid \<noteq> []"
    using turns_ok_tracker[OF reachable_turns_ok[OF assms(1)] assms(2)] by blast
  show ?thesis
    using item_completed_step[OF ne assms(2,3,4)] by (simp add: Let_def)
qed

theorem item_completed_overwrites_witness:
  "reachable spoken \<and> turns spoken ''u1'' = Some heard_u1
   \<and> itemTexts heard_u1 ''i1'' = Some ''Hello world''
   \<and> handleMessage (notification ''item/completed'' final_i1) spoken =
       spoken\<lparr>turns := [''u1'' \<mapsto>
         heard_u1\<lparr>itemTexts := [''i1'' \<mapsto> ''final''], lastAgentText := ''final'',
                   lastNonEmptyText := ''final''\<rparr>]\<rparr>"
proof -
  have t: "turns spoken ''u1'' = Some heard_u1" by (simp add: spoken_eq)
  have a: "p_turnId final_i1 = Some ''u1''"
    "p_item final_i1 = Some \<lparr>item_type = Some ''agentMessage'', item_id = Some ''i1'',
                             item_text = Some ''final''\<rparr>"
    by (simp_all add: final_i1_def)
  show ?thesis
    using item_completed_overwrites[OF reachable_spoken t a, of "''i1''"] reachable_spoken t
    by (simp add: recorded_def heard_u1_def fresh_u1_def js_trim_def is_ws_def spoken_eq)
qed

section \<open>The pending-request table\<close>

text \<open>
  C5, as stated, fails where the write fails. A stopped client has no child; a request
  sent then is rejected by the error of \<^verbatim>\<open>writeMessage\<close>, yet its entry stays in the
  table after this rejection, and a response that names its id later calls its closures
  a second time.
\<close>

theorem unwritten_request_stays_counterexample:
  "reachable stopped
   \<and> fst (sendRequest ''thread/start'' None stopped) = 0
   \<and> awaited (request_settled unasked) 0 = Some (Rejected (Error ''codex app-server not running''))
   \<and> settlements (request_settled unasked) 0 = 1
   \<and> pending unasked ''1'' = Some 0
   \<and> settlements (request_settled (run unasked [Child True, Line reply1])) 0 = 2"
  using reachable_stopped
  by (simp add: unasked_eq sendRequest_eq stopped_eq initial_def awaited_def settlements_def
      run_def handleMessage_def isRpcResponse_def reply1_def normalizeId_def js_String_1)

text \<open>
  C5, amended. Let a request be sent from a reachable state in which the child and its
  input stream are there, so that the request is written; \<open>p\<close> is the promise its caller
  awaits and \<open>key\<close> its id as a string. After any further events whatever: if a response
  with that id was among them, the closures of \<open>p\<close> have been called exactly once, the table
  has no entry under \<open>key\<close> and no entry that names \<open>p\<close>; if none was, the closures have not
  been called and the entry is still there. So the entry leaves the table in the very
  step that settles the caller, and never comes back. A response whose id has no entry in
  the table leaves the state as it is.
\<close>

theorem request_settled_once:
  assumes "reachable s0" and "child_stdin s0" and "sendRequest meth params s0 = (p, s1)"
  shows "(let key = js_String (int (nextId s0)); s = run s1 evs in
          if (\<exists>e \<in> set evs. answers key e)
          then settlements (request_settled s) p = 1 \<and> pending s key = None
               \<and> (\<forall>k. pending s k \<noteq> Some p)
          else settlements (request_settled s) p = 0 \<and> pending s key = Some p)
       \<and> (isRpcResponse m \<and> msg_id m = Some i \<and> pending s' (normalizeId i) = None
            \<longrightarrow> handleMessage m s' = s')"
proof -
  note w = waiting_run[OF sendRequest_waiting[OF assms], of evs]
  show ?thesis
  proof (cases "\<exists>e \<in> set evs. answers (js_String (int (nextId s0))) e")
    case True
    then have "answered (nextId s0) p (run s1 evs)" using w by simp
    then show ?thesis using True unmatched_response[of m i s'] unfolding answered_def Let_def
      by auto
  next
    case False
    then have "waiting (nextId s0) p (run s1 evs)" using w by simp
    then show ?thesis using False unmatched_response[of m i s'] unfolding waiting_def Let_def
      by auto
  qed
qed

theorem request_settled_once_witness:
  "reachable started \<and> child_stdin started
   \<and> sendRequest ''thread/start'' None started = (0, asked)
   \<and> js_String (int (nextId started)) = ''1''
   \<and> settlements (request_settled asked) 0 = 0 \<and> pending asked ''1'' = Some 0
   \<and> settlements (request_settled (run asked [Line reply1, Line failure1])) 0 = 1
   \<and> pending (run asked [Line reply1, Line failure1]) ''1'' = None
   \<and> handleMessage failure1 (run asked [Line reply1]) = run asked [Line reply1]"
proof -
  have h2: "child_stdin started" by (simp add: started_eq)
  have h3: "sendRequest ''thread/start'' None started = (0, asked)"
    by (simp add: asked_def sendRequest_eq started_eq initial_def)
  have k: "js_String (int (nextId started)) = ''1''"
    by (simp add: started_eq initial_def js_String_1)
  have a1: "answers ''1'' (Line reply1)"
    by (simp add: reply1_def isRpcResponse_def normalizeId_def js_String_1)
  have f: "isRpcResponse failure1" "msg_id failure1 = Some (IdStr ''1'')"
    by (simp_all add: failure1_def isRpcResponse_def)
  have g: "pending (run asked [Line reply1]) (normalizeId (IdStr ''1'')) = None"
    by (simp add: run_def asked_eq handleMessage_def reply1_def isRpcResponse_def
        normalizeId_def js_String_1)
  show ?thesis
    using request_settled_once[OF reachable_started h2 h3, of "[Line reply1, Line failure1]"
        failure1 "IdStr ''1''" "run asked [Line reply1]"]
      request_settled_once[OF reachable_started h2 h3, of "[]" failure1 "IdStr ''1''" asked]
      reachable_started h2 h3 k a1 f g
    by (simp add: Let_def run_Nil)
qed

text \<open>
  C6. A response whose id has the entry \<open>p\<close> in the table: \<^verbatim>\<open>handleMessage\<close> removes the
  entry and calls one closure of \<open>p\<close>. When the response has no error member, that is
  \<^verbatim>\<open>resolve\<close> with exactly the result member of the response; when it has one, it is
  \<^verbatim>\<open>reject\<close> with an error whose message is the message of the error member, or
  \<^verbatim>\<open>Unknown JSON-RPC error\<close> when that has no message. A caller who had received nothing
  receives just that.
\<close>

theorem response_settles:
  assumes "isRpcResponse m" and "msg_id m = Some i" and "pending s (normalizeId i) = Some p"
  shows "let s' = handleMessage m s;
             out = (case msg_error m of
                      None \<Rightarrow> Resolved (msg_result m)
                    | Some e \<Rightarrow> Rejected (Error (case err_message e of
                                                   None \<Rightarrow> ''Unknown JSON-RPC error''
                                                 | Some t \<Rightarrow> t)))
         in request_settled s' = request_settled s @ [(p, out)]
          \<and> pending s' (normalizeId i) = None
          \<and> (awaited (request_settled s) p = None \<longrightarrow> awaited (request_settled s') p = Some out)"
  using handleMessage_response[OF assms(1,2), of s] assms(3)
  by (cases "msg_error m") (simp_all add: Let_def toError_def awaited_append)

theorem response_settles_witness:
  "isRpcResponse reply1 \<and> pending asked (normalizeId (IdNum 1)) = Some 0
   \<and> awaited (request_settled asked) 0 = None
   \<and> awaited (request_settled (handleMessage reply1 asked)) 0 =
       Some (Resolved (Some (JObj [(''thread'', JObj [(''id'', JStr ''t1'')])])))
   \<and> isRpcResponse failure1 \<and> pending asked (normalizeId (IdStr ''1'')) = Some 0
   \<and> awaited (request_settled (handleMessage failure1 asked)) 0 =
       Some (Rejected (Error ''Unknown JSON-RPC error''))"
proof -
  have r: "isRpcResponse reply1" "msg_id reply1 = Some (IdNum 1)"
    "pending asked (normalizeId (IdNum 1)) = Some 0"
    by (simp_all add: reply1_def isRpcResponse_def asked_eq normalizeId_def js_String_1)
  have f: "isRpcResponse failure1" "msg_id failure1 = Some (IdStr ''1'')"
    "pending asked (normalizeId (IdStr ''1'')) = Some 0"
    by (simp_all add: failure1_def isRpcResponse_def asked_eq normalizeId_def)
  have u: "awaited (request_settled asked) 0 = None"
    by (simp add: asked_eq started_eq initial_def awaited_def)
  show ?thesis
    using response_settles[OF r] response_settles[OF f] r f u
    by (simp add: Let_def reply1_def failure1_def awaited_append)
qed

section \<open>The server-request handler\<close>

text \<open>
  C7. For every request of the server, \<^verbatim>\<open>handleServerRequest\<close> hands exactly one reply,
  with the id of the request, to \<^verbatim>\<open>writeMessage\<close>: for the two approval methods the result
  \<^verbatim>\<open>{decision}\<close> with \<^verbatim>\<open>accept\<close> when auto-approve is configured and \<^verbatim>\<open>decline\<close> otherwise;
  for \<^verbatim>\<open>item/tool/requestUserInput\<close> the result \<^verbatim>\<open>{answers: {}}\<close>; for \<^verbatim>\<open>item/tool/call\<close> a
  result with the unsupported notice as output and \<^verbatim>\<open>success: false\<close>; for
  \<^verbatim>\<open>account/chatgptAuthTokens/refresh\<close> an error with code -32601; and for every other method
  an error with code -32601 and the message \<^verbatim>\<open>unsupported request: \<close> followed by the
  method. While the child and its input stream are there, that reply is the one line
  written.
\<close>

theorem server_request_policy:
  "let reply =
       (if meth = ''item/commandExecution/requestApproval'' \<or> meth = ''item/fileChange/requestApproval'' then
          \<lparr>msg_id = Some i, msg_method = None, msg_params = None,
           msg_result = Some (JObj [(''decision'', JStr (if autoApprove (opts s) then ''accept'' else ''decline''))]),
           msg_error = None\<rparr>
        else if meth = ''item/tool/requestUserInput'' then
          \<lparr>msg_id = Some i, msg_method = None, msg_params = None,
           msg_result = Some (JObj [(''answers'', JObj [])]), msg_error = None\<rparr>
        else if meth = ''item/tool/call'' then
          \<lparr>msg_id = Some i, msg_method = None, msg_params = None,
           msg_result = Some (JObj [(''output'', JStr ''clawd does not support dynamic tool calls''),
                                    (''success'', JBool False)]),
           msg_error = None\<rparr>
        else if meth = ''account/chatgptAuthTokens/refresh'' then
          \<lparr>msg_id = Some i, msg_method = None, msg_params = None, msg_result = None,
           msg_error = Some \<lparr>err_code = - 32601, err_message = Some ''auth token refresh unsupported'',
                             err_data = None\<rparr>\<rparr>
        else
          \<lparr>msg_id = Some i, msg_method = None, msg_params = None, msg_result = None,
           msg_error = Some \<lparr>err_code = - 32601, err_message = Some (''unsupported request: '' @ meth),
                             err_data = None\<rparr>\<rparr>)
   in handleServerRequest i meth s = writeMessage reply s
    \<and> (child_stdin s \<longrightarrow>
          handleServerRequest i meth s = Inr (s\<lparr>stdin_lines := stdin_lines s @ [reply]\<rparr>))"
  unfolding Let_def handleServerRequest_writes
  by (intro conjI impI) (simp_all only: writeMessage_def simp_thms if_False)

theorem server_request_policy_witness:
  "child_stdin started \<and> \<not> autoApprove (opts started)
   \<and> handleServerRequest (IdNum 7) ''item/commandExecution/requestApproval'' started =
       Inr (started\<lparr>stdin_lines :=
         [\<lparr>msg_id = Some (IdNum 7), msg_method = None, msg_params = None,
           msg_result = Some (JObj [(''decision'', JStr ''decline'')]), msg_error = None\<rparr>]\<rparr>)
   \<and> handleServerRequest (IdStr ''r8'') ''foo/bar'' started =
       Inr (started\<lparr>stdin_lines :=
         [\<lparr>msg_id = Some (IdStr ''r8''), msg_method = None, msg_params = None, msg_result = None,
           msg_error = Some \<lparr>err_code = - 32601, err_message = Some ''unsupported request: foo/bar'',
                             err_data = None\<rparr>\<rparr>]\<rparr>)"
proof -
  have c: "child_stdin started" by (simp add: started_eq)
  show ?thesis
    using server_request_policy[of "''item/commandExecution/requestApproval''" "IdNum 7" started]
      server_request_policy[of "''foo/bar''" "IdStr ''r8''" started] c
    by (simp add: Let_def started_eq initial_def default_opts_def writeMessage_def)
qed

section \<open>Starting a turn\<close>

text \<open>
  C8. When the result of \<^verbatim>\<open>turn/start\<close> has no turn id (the result, its \<^verbatim>\<open>turn\<close> or the
  \<^verbatim>\<open>id\<close> of the turn is absent, or the id is the empty string), \<^verbatim>\<open>runTurn\<close> throws the error
  \<^verbatim>\<open>codex app-server turn/start missing turn id\<close> at once and the state, with its registry,
  is as before: no tracker is made. The two earlier steps of the call, sending the request
  and handling its response, do not touch the registry either.
\<close>

theorem missing_turn_id_throws:
  assumes "Option.bind (Option.bind response resp_turn) ref_id = None
           \<or> Option.bind (Option.bind response resp_turn) ref_id = Some []"
  shows "runTurn_response params response s =
           (Inl (Error ''codex app-server turn/start missing turn id''), s)
       \<and> turns (snd (runTurn_request params s0)) = turns s0
       \<and> (isRpcResponse m \<longrightarrow> turns (handleMessage m s1) = turns s1)"
proof -
  have a: "runTurn_response params response s =
           (Inl (Error ''codex app-server turn/start missing turn id''), s)"
    using assms unfolding runTurn_response_def Let_def by auto
  have b: "turns (snd (runTurn_request params s0)) = turns s0"
    by (simp add: runTurn_request_def sendRequest_eq)
  have c: "isRpcResponse m \<Longrightarrow> turns (handleMessage m s1) = turns s1"
  proof -
    assume r: "isRpcResponse m"
    then obtain i where i: "msg_id m = Some i" by (auto simp: isRpcResponse_def)
    show ?thesis
      using handleMessage_response[OF r i, of s1] by (simp split: option.splits)
  qed
  show ?thesis using a b c by simp
qed

theorem missing_turn_id_throws_witness:
  "runTurn_response plain_turn (Some \<lparr>resp_turn = None\<rparr>) started =
     (Inl (Error ''codex app-server turn/start missing turn id''), started)
   \<and> runTurn_response plain_turn (Some \<lparr>resp_turn = Some \<lparr>ref_id = Some []\<rparr>\<rparr>) started =
     (Inl (Error ''codex app-server turn/start missing turn id''), started)
   \<and> turns started = Map.empty
   \<and> turns (handleMessage reply1 (snd (runTurn_request plain_turn started))) = Map.empty"
proof -
  have r: "isRpcResponse reply1" by (simp add: reply1_def isRpcResponse_def)
  show ?thesis
    using missing_turn_id_throws[of "Some \<lparr>resp_turn = None\<rparr>" plain_turn started started reply1
        "snd (runTurn_request plain_turn started)"]
      missing_turn_id_throws[of "Some \<lparr>resp_turn = Some \<lparr>ref_id = Some []\<rparr>\<rparr>" plain_turn started
        started reply1 started] r
    by (simp add: started_eq initial_def)
qed

section \<open>A request that cannot be written\<close>

text \<open>
  C10, as stated, fails in its last part: the entry of a request that could not be
  written does not stay in the table for ever. A stopped client has no child; a request
  sent then is rejected with \<^verbatim>\<open>codex app-server not running\<close> and its entry is stored under
  the id 1. Once a response with the id 1 is handled, in a state that is reachable, the
  table has no entry under that id any more.
\<close>

theorem answered_leak_removed_counterexample:
  "reachable stopped \<and> \<not> child_stdin stopped
   \<and> sendRequest ''turn/start'' None stopped = (0, unsent)
   \<and> awaited (request_settled unsent) 0 = Some (Rejected (Error ''codex app-server not running''))
   \<and> pending unsent ''1'' = Some 0
   \<and> reachable (run unsent [Child True, Line reply1])
   \<and> pending (run unsent [Child True, Line reply1]) ''1'' = None"
  using reachable_stopped reachable_run[OF reachable_unsent, of "[Child True, Line reply1]"]
  by (simp add: unsent_eq sendRequest_eq stopped_eq initial_def awaited_def
      run_def handleMessage_def isRpcResponse_def reply1_def normalizeId_def js_String_1)

text \<open>
  C10, amended. Let a request be sent from a reachable state in which the child or its
  input stream is missing. The caller, who had received nothing, is rejected with the error
  \<^verbatim>\<open>codex app-server not running\<close>, and the entry stored under the id of the request before
  the write is still in the table. After any further events whatever the caller is still
  rejected with that error, and the entry is in the table exactly as long as no response
  with that id has been among the events: handling such a response removes it, nothing
  else does, and once removed it does not come back.
\<close>

theorem write_failure_leaks:
  assumes "reachable s0" and "\<not> child_stdin s0" and "sendRequest meth params s0 = (p, s1)"
  shows "awaited (request_settled s0) p = None
    \<and> awaited (request_settled s1) p = Some (Rejected (Error ''codex app-server not running''))
    \<and> pending s1 (js_String (int (nextId s0))) = Some p
    \<and> pending (run s1 evs) (js_String (int (nextId s0))) =
          (if (\<exists>e \<in> set evs. answers (js_String (int (nextId s0))) e) then None else Some p)
    \<and> awaited (request_settled (run s1 evs)) p =
          Some (Rejected (Error ''codex app-server not running''))"
proof -
  have ok: "requests_ok s0" using assms(1) by (rule reachable_requests_ok)
  have p: "p = promises s0" using assms(3) by (simp add: sendRequest_eq)
  have s1: "s1 = snd (sendRequest meth params s0)" using assms(3) by simp
  have c: "pending s1 = (pending s0)(js_String (int (nextId s0)) \<mapsto> promises s0)"
    "request_settled s1 =
       request_settled s0 @ [(promises s0, Rejected (Error ''codex app-server not running''))]"
    "nextId s1 = nextId s0 + 1"
    unfolding s1 using assms(2) by (simp_all add: sendRequest_eq)
  have un: "awaited (request_settled s0) p = None"
    unfolding p awaited_None_iff using ok unfolding requests_ok_def by fastforce
  have rej: "awaited (request_settled s1) p = Some (Rejected (Error ''codex app-server not running''))"
    using un unfolding c p by (simp add: awaited_append)
  have e1: "pending s1 (js_String (int (nextId s0))) = Some p" unfolding c p by simp
  have lt: "nextId s0 < nextId s1" unfolding c by simp
  show ?thesis
    using un rej e1 entry_run[OF lt e1, of evs] awaited_kept_run[OF rej, of evs] by simp
qed

theorem write_failure_leaks_witness:
  "reachable stopped \<and> \<not> child_stdin stopped
   \<and> sendRequest ''turn/start'' None stopped = (0, unsent)
   \<and> js_String (int (nextId stopped)) = ''1''
   \<and> awaited (request_settled unsent) 0 = Some (Rejected (Error ''codex app-server not running''))
   \<and> pending unsent ''1'' = Some 0
   \<and> pending (run unsent [Child True, Request ''thread/start'' None, Timer 0]) ''1'' = Some 0
   \<and> pending (run unsent [Child True, Request ''thread/start'' None, Line failure1, Timer 0]) ''1''
       = None
   \<and> awaited (request_settled
        (run unsent [Child True, Request ''thread/start'' None, Line failure1, Timer 0])) 0 =
          Some (Rejected (Error ''codex app-server not running''))"
proof -
  have h2: "\<not> child_stdin stopped" by (simp add: stopped_eq initial_def)
  have h3: "sendRequest ''turn/start'' None stopped = (0, unsent)"
    by (simp add: unsent_def sendRequest_eq stopped_eq initial_def)
  have k: "js_String (int (nextId stopped)) = ''1''"
    by (simp add: stopped_eq initial_def js_String_1)
  have a: "answers ''1'' (Line failure1)"
    by (simp add: failure1_def isRpcResponse_def normalizeId_def)
  show ?thesis
    using write_failure_leaks[OF reachable_stopped h2 h3,
        of "[Child True, Request ''thread/start'' None, Timer 0]"]
      write_failure_leaks[OF reachable_stopped h2 h3,
        of "[Child True, Request ''thread/start'' None, Line failure1, Timer 0]"]
      reachable_stopped h2 h3 k a
    by simp
qed

section \<open>The message router\<close>

text \<open>
  C9. The three classification predicates exclude one another: of any decoded message
  at most one of response, request and notification holds. Of a message of one of the
  three wire shapes exactly one holds.
\<close>

theorem classification_exclusive:
  "length (classes m) \<le> 1 \<and> (valid_message m \<longrightarrow> length (classes m) = 1)"
  by (auto simp: classes_def valid_message_def isRpcResponse_def isRpcRequest_def
      isRpcNotification_def)

theorem classification_exclusive_witness:
  "valid_message (notification ''turn/completed'' no_members)
   \<and> length (classes (notification ''turn/completed'' no_members)) = 1
   \<and> classes (notification ''turn/completed'' no_members) = [True]"
  using classification_exclusive[of "notification ''turn/completed'' no_members"]
  by (simp add: valid_message_def notification_def classes_def isRpcResponse_def
      isRpcRequest_def isRpcNotification_def)

end
